theory Spec2Isabelle
  imports Complex_Main "HOL-Library.Sublist"
begin

section \<open>Input events\<close>

text \<open>
  The input events that the synthesizers dispatch to the page, in the order of the calls:
  \<^verbatim>\<open>Page.Mouse.Scroll(0, dy, 0)\<close>, \<^verbatim>\<open>Page.InsertText(s)\<close> and \<^verbatim>\<open>Page.Keyboard.Press(k)\<close>.
  The calls of the timing model between them only block; by \<open>SleepWithJitter_total\<close> and
  \<open>SleepContextual_in_range_total\<close> below they return normally for the constant arguments used,
  and they dispatch nothing, so they are not part of a trace.
\<close>

datatype key = Backspace | Escape

datatype event =
    MouseScroll real
  | InsertText string
  | KeyPress key

text \<open>
  \<^verbatim>\<open>rand.Float64()\<close> returns a value of \<open>[0, 1)\<close>. A function is given the values that its
  own calls of \<^verbatim>\<open>rand.Float64\<close> return: \<open>rnd k\<close> is the result of call number \<open>k\<close>.
\<close>

definition Float64_contract :: "(nat \<Rightarrow> real) \<Rightarrow> bool" where
  "Float64_contract rnd \<longleftrightarrow> (\<forall>k. 0 \<le> rnd k \<and> rnd k < 1)"

definition rnd0 :: "nat \<Rightarrow> real" where
  "rnd0 k = 0"

definition rnd_half :: "nat \<Rightarrow> real" where
  "rnd_half k = 1 / 2"


section \<open>\<^verbatim>\<open>float64\<close> arithmetic\<close>

text \<open>
  A finite \<^verbatim>\<open>float64\<close> is modelled as the \<open>real\<close> it denotes. The result of a \<^verbatim>\<open>float64\<close>
  operation is the exact result rounded to a \<^verbatim>\<open>float64\<close>; the functions below take that
  rounding as their argument \<open>rd\<close> and apply it to the result of each operation on its own
  (to a constant that is no \<^verbatim>\<open>float64\<close> too, and to the conversion of an integer).
  \<open>float64_rounding\<close> states three facts of the rounding to the nearest \<^verbatim>\<open>float64\<close>
  (IEEE 754 binary64, 53 bits of precision, exponents from -1022 to 1023): it is monotone;
  every integer of magnitude up to \<open>2 ^ 53\<close> is a \<^verbatim>\<open>float64\<close> and rounds to itself; and in
  the range of the normal numbers the rounding error is at most half a unit in the last
  place, which is at most \<open>\<bar>x\<bar> / 2 ^ 53\<close>.
\<close>

definition float64_rounding :: "(real \<Rightarrow> real) \<Rightarrow> bool" where
  "float64_rounding rd \<longleftrightarrow>
     (\<forall>x y. x \<le> y \<longrightarrow> rd x \<le> rd y)
     \<and> (\<forall>n::int. \<bar>n\<bar> \<le> 2 ^ 53 \<longrightarrow> rd (real_of_int n) = real_of_int n)
     \<and> (\<forall>x. (1 / 2) ^ 1022 \<le> \<bar>x\<bar> \<and> \<bar>x\<bar> \<le> 2 ^ 1023 \<longrightarrow> \<bar>rd x - x\<bar> \<le> \<bar>x\<bar> / 2 ^ 53)"

text \<open>
  The rounding itself, to the nearest \<^verbatim>\<open>float64\<close> with ties to the even significand:
  \<open>ulp x\<close> is the distance between the \<^verbatim>\<open>float64\<close> values around \<open>x\<close>, which have 53
  significant bits from the binary exponent of \<open>x\<close> down, or from -1022 down for the
  subnormal numbers. The exponent is not bounded above: beyond the largest \<^verbatim>\<open>float64\<close>
  (from \<open>2 ^ 1024 - 2 ^ 970\<close>) the operation of the machine yields an infinity, and
  \<open>binary64\<close> is not its result there.
\<close>

definition round_even :: "real \<Rightarrow> int" where
  "round_even y =
     (let n = \<lfloor>y\<rfloor>; r = y - real_of_int n
      in if r < 1 / 2 \<or> (r = 1 / 2 \<and> even n) then n else n + 1)"

definition binade :: "real \<Rightarrow> int" where
  "binade x = max \<lfloor>log 2 \<bar>x\<bar>\<rfloor> (- 1022)"

definition ulp :: "real \<Rightarrow> real" where
  "ulp x = 2 powr (real_of_int (binade x) - 52)"

definition binary64 :: "real \<Rightarrow> real" where
  "binary64 x = (if x = 0 then 0 else real_of_int (round_even (x / ulp x)) * ulp x)"

section \<open>Durations and the random source\<close>

text \<open>
  \<^verbatim>\<open>time.Duration\<close> is a signed 64-bit count of nanoseconds. It is modelled as an
  \<open>int\<close> with the two's complement wrap-around of Go's \<open>+\<close>, \<open>-\<close> and \<open>*\<close> written out.
\<close>

type_synonym Duration = int

definition in64 :: "int \<Rightarrow> bool" where
  "in64 x \<longleftrightarrow> - (2 ^ 63) \<le> x \<and> x < 2 ^ 63"

definition wrap64 :: "int \<Rightarrow> int" where
  "wrap64 x = (x + 2 ^ 63) mod 2 ^ 64 - 2 ^ 63"

definition Millisecond :: Duration where
  "Millisecond = 1000000"

definition Second :: Duration where
  "Second = 1000000000"

text \<open>
  Go errors: a panic with its message, \<^verbatim>\<open>errors.New(msg)\<close>, and \<^verbatim>\<open>fmt.Errorf(format, args)\<close>
  with its format string and its arguments (\<open>W\<close> for an error wrapped by \<^verbatim>\<open>%w\<close>, nil as
  \<open>None\<close>).
\<close>

datatype error =
    Panic string
  | Error string
  | Errorf string "arg list"
and arg =
    I int
  | S string
  | W "error option"

text \<open>
  \<^verbatim>\<open>rand.Int63n(n)\<close> of the Go library panics when \<open>n \<le> 0\<close> and otherwise returns a
  value of \<open>[0, n)\<close>. The argument \<open>r\<close> is the raw value drawn from the generator; every
  value of \<open>[0, n)\<close> is the result for some \<open>r\<close>.
\<close>

definition Int63n :: "nat \<Rightarrow> int \<Rightarrow> error + int" where
  "Int63n r n =
     (if n \<le> 0 then Inl (Panic ''invalid argument to Int63n'') else Inr (int r mod n))"

text \<open>
  A conversion \<^verbatim>\<open>time.Duration(x)\<close> of a \<^verbatim>\<open>float64\<close> truncates towards zero. Where the
  truncated value is not an \<^verbatim>\<open>int64\<close> the language leaves the result to the
  implementation: \<open>oob\<close> is that result.
\<close>

definition float_trunc :: "real \<Rightarrow> int" where
  "float_trunc x = (if 0 \<le> x then \<lfloor>x\<rfloor> else \<lceil>x\<rceil>)"

definition toDuration :: "(real \<Rightarrow> int) \<Rightarrow> real \<Rightarrow> Duration" where
  "toDuration oob x = (let t = float_trunc x in if in64 t then t else wrap64 (oob x))"

definition amd64_oob :: "real \<Rightarrow> int" where
  "amd64_oob x = - (2 ^ 63)"

section \<open>Timing model (package stealth)\<close>

type_synonym ActionType = string

definition ActionTypeClick :: ActionType where "ActionTypeClick = ''click''"
definition ActionTypeType :: ActionType where "ActionTypeType = ''type''"
definition ActionTypeRead :: ActionType where "ActionTypeRead = ''read''"
definition ActionTypeScroll :: ActionType where "ActionTypeScroll = ''scroll''"
definition ActionTypeThink :: ActionType where "ActionTypeThink = ''think''"

record TimingConfig =
  Min :: Duration
  Max :: Duration

definition defaultTimings :: "ActionType \<rightharpoonup> TimingConfig" where
  "defaultTimings = map_of
     [(ActionTypeClick, \<lparr>Min = 100 * Millisecond, Max = 300 * Millisecond\<rparr>),
      (ActionTypeType, \<lparr>Min = 50 * Millisecond, Max = 150 * Millisecond\<rparr>),
      (ActionTypeRead, \<lparr>Min = 2 * Second, Max = 5 * Second\<rparr>),
      (ActionTypeScroll, \<lparr>Min = 500 * Millisecond, Max = 1500 * Millisecond\<rparr>),
      (ActionTypeThink, \<lparr>Min = 1 * Second, Max = 3 * Second\<rparr>)]"

definition RandomDuration :: "nat \<Rightarrow> Duration \<Rightarrow> Duration \<Rightarrow> error + Duration" where
  "RandomDuration r mn mx =
     (if mn \<ge> mx then Inr mn
      else let delta = wrap64 (mx - mn) in
        (case Int63n r delta of
           Inl e \<Rightarrow> Inl e
         | Inr v \<Rightarrow> Inr (wrap64 (mn + v))))"

text \<open>\<^verbatim>\<open>SleepRandom\<close> blocks for the sampled duration; the model returns that duration.\<close>

definition SleepRandom :: "nat \<Rightarrow> Duration \<Rightarrow> Duration \<Rightarrow> error + Duration" where
  "SleepRandom r mn mx = RandomDuration r mn mx"

text \<open>
  \<^verbatim>\<open>float64(base) * deviation\<close> rounds twice: the conversion of \<open>base\<close> and the product.
\<close>

definition SleepWithJitter ::
  "(real \<Rightarrow> real) \<Rightarrow> nat \<Rightarrow> (real \<Rightarrow> int) \<Rightarrow> Duration \<Rightarrow> real \<Rightarrow> error + Duration" where
  "SleepWithJitter rd r oob base deviation =
     (let deviation = (if deviation < 0 then 0 else deviation);
          delta = toDuration oob (rd (rd (real_of_int base) * deviation));
          mn = wrap64 (base - delta);
          mx = wrap64 (base + delta);
          mn = (if mn < 0 then 0 else mn)
      in SleepRandom r mn mx)"

definition SleepContextual ::
  "(real \<Rightarrow> real) \<Rightarrow> nat \<Rightarrow> (real \<Rightarrow> int) \<Rightarrow> ActionType \<Rightarrow> real \<Rightarrow> error + Duration" where
  "SleepContextual rd r oob action intensity =
     (let config = (case defaultTimings action of
                      Some c \<Rightarrow> c
                    | None \<Rightarrow> \<lparr>Min = 500 * Millisecond, Max = 1000 * Millisecond\<rparr>);
          mn = toDuration oob (rd (rd (real_of_int (Min config)) * intensity));
          mx = toDuration oob (rd (rd (real_of_int (Max config)) * intensity))
      in SleepRandom r mn mx)"

section \<open>Retry wrapper (package utils)\<close>

text \<open>
  The operation is a closure called once per attempt: \<open>op k\<close> is the result of its call
  number \<open>k\<close> (from 0), \<open>None\<close> for a nil error. The model returns the error of
  \<^verbatim>\<open>RetryWithBackoff\<close> together with the durations passed to \<^verbatim>\<open>time.Sleep\<close>, in order.
  \<open>RetriesExhausted n e\<close> is the error that \<^verbatim>\<open>fmt.Errorf\<close> builds from the retry count and
  the last error of the operation, which it wraps.
\<close>

definition RetriesExhausted :: "int \<Rightarrow> error option \<Rightarrow> error" where
  "RetriesExhausted maxRetries err =
     Errorf ''operation failed after %d retries: %w'' [I maxRetries, W err]"

function RetryWithBackoff_loop ::
  "(nat \<Rightarrow> error option) \<Rightarrow> int \<Rightarrow> Duration \<Rightarrow> int \<Rightarrow> Duration \<Rightarrow> error option \<Rightarrow> Duration list
     \<Rightarrow> error option \<times> Duration list" where
  "RetryWithBackoff_loop op maxRetries maxBackoff i backoff err sleeps =
     (if i \<le> maxRetries then
        (let err = op (nat i) in
         if err = None then (None, sleeps)
         else if i = maxRetries then (Some (RetriesExhausted maxRetries err), sleeps)
         else
           (let sleeps = sleeps @ [backoff];
                backoff = wrap64 (backoff * 2);
                backoff = (if backoff > maxBackoff then maxBackoff else backoff)
            in RetryWithBackoff_loop op maxRetries maxBackoff (i + 1) backoff err sleeps))
      else (Some (RetriesExhausted maxRetries err), sleeps))"
  by pat_completeness auto
termination
  by (relation "measure (\<lambda>(op, maxRetries, maxBackoff, i, backoff, err, sleeps). nat (maxRetries + 1 - i))") auto

definition RetryWithBackoff ::
  "(nat \<Rightarrow> error option) \<Rightarrow> int \<Rightarrow> Duration \<Rightarrow> Duration \<Rightarrow> error option \<times> Duration list" where
  "RetryWithBackoff op maxRetries initialBackoff maxBackoff =
     RetryWithBackoff_loop op maxRetries maxBackoff 0 initialBackoff None []"

text \<open>
  The delays of the loop: the initial delay as it is given, each later one the double of
  its predecessor, capped at the maximal delay.
\<close>

fun backoff_delays :: "Duration \<Rightarrow> Duration \<Rightarrow> nat \<Rightarrow> Duration list" where
  "backoff_delays d maxDelay 0 = []"
| "backoff_delays d maxDelay (Suc n) = d # backoff_delays (min (2 * d) maxDelay) maxDelay n"

text \<open>
  The delays as the specification words them: the initial delay doubled on every retry,
  each value capped at the maximal delay.
\<close>

definition capped_delays :: "Duration \<Rightarrow> Duration \<Rightarrow> nat \<Rightarrow> Duration list" where
  "capped_delays d maxDelay n = map (\<lambda>i. min (d * 2 ^ i) maxDelay) [0..<n]"

definition fails_then_ok :: "nat \<Rightarrow> nat \<Rightarrow> error option" where
  "fails_then_ok n k = (if k < n then Some (Error ''navigation failed'') else None)"

section \<open>Scroll synthesizer (browser/scroll.go)\<close>

text \<open>
  The result of every \<^verbatim>\<open>float64\<close> operation of \<^verbatim>\<open>HumanScroll\<close> goes through the rounding
  \<open>rd\<close>. The state of the loop of \<^verbatim>\<open>HumanScroll\<close> holds its two variables \<open>remaining\<close> and
  \<open>currentScroll\<close>, the number of values drawn from \<^verbatim>\<open>rand.Float64\<close> so far, the events
  dispatched so far and the chunk of every iteration so far.
\<close>

record scroll_state =
  remaining :: real
  currentScroll :: real
  draws :: nat
  events :: "event list"
  chunks :: "real list"

text \<open>The inner loop: \<open>steps\<close> scroll events, two random values each (jitter and hover).\<close>

function steps_loop ::
  "(real \<Rightarrow> real) \<Rightarrow> (nat \<Rightarrow> real) \<Rightarrow> real \<Rightarrow> nat \<Rightarrow> nat \<Rightarrow> nat \<Rightarrow> event list \<times> nat" where
  "steps_loop rd rnd chunk steps i k =
     (if i < steps then
        (let stepFunc = rd (chunk / real steps);
             stepSize = rd (stepFunc * rd (rd 0.8 + rd (rnd k * rd 0.4)));
             hover = (rnd (k + 1) < rd 0.1);
             (evs, k') = steps_loop rd rnd chunk steps (i + 1) (k + 2)
         in (MouseScroll stepSize # evs, k'))
      else ([], k))"
  by pat_completeness auto
termination
  by (relation "measure (\<lambda>(rd, rnd, chunk, steps, i, k). steps - i)") auto

text \<open>The chunk of an iteration: 100 to 300 pixels in the direction of \<open>deltaY\<close>, clipped.\<close>

definition next_chunk ::
  "(real \<Rightarrow> real) \<Rightarrow> (nat \<Rightarrow> real) \<Rightarrow> real \<Rightarrow> scroll_state \<Rightarrow> real" where
  "next_chunk rd rnd deltaY st =
     (let chunk = rd (rd (100 + rd (rnd (draws st) * 200)) * rd (deltaY / \<bar>deltaY\<bar>))
      in if \<bar>chunk\<bar> > \<bar>remaining st\<bar> then remaining st else chunk)"

definition chunk_steps :: "(real \<Rightarrow> real) \<Rightarrow> real \<Rightarrow> nat" where
  "chunk_steps rd chunk =
     (let steps = nat \<lfloor>rd (\<bar>chunk\<bar> / 10)\<rfloor> in if steps < 5 then 5 else steps)"

text \<open>One iteration of the outer loop.\<close>

definition scroll_chunk ::
  "(real \<Rightarrow> real) \<Rightarrow> (nat \<Rightarrow> real) \<Rightarrow> real \<Rightarrow> scroll_state \<Rightarrow> scroll_state" where
  "scroll_chunk rd rnd deltaY st =
     (let chunk = next_chunk rd rnd deltaY st;
          steps = chunk_steps rd chunk;
          (evs, k) = steps_loop rd rnd chunk steps 0 (draws st + 1);
          remaining' = rd (remaining st - chunk);
          currentScroll' = rd (currentScroll st + chunk);
          back = (if rnd k < rd 0.1 \<and> \<bar>currentScroll'\<bar> > 300
                  then (let backAmount = - rd (chunk * 0.5)
                        in [MouseScroll backAmount, MouseScroll (- backAmount)])
                  else [])
      in \<lparr>remaining = remaining', currentScroll = currentScroll', draws = k + 1,
          events = events st @ evs @ back, chunks = chunks st @ [chunk]\<rparr>)"

text \<open>
  The outer loop runs while \<open>\<bar>remaining\<bar> > 0\<close>. Nothing in its text bounds the number of
  iterations, so it is a partial function: \<open>None\<close> is a run that never returns.
\<close>

partial_function (option) HumanScroll_loop ::
  "(real \<Rightarrow> real) \<Rightarrow> (nat \<Rightarrow> real) \<Rightarrow> real \<Rightarrow> scroll_state \<Rightarrow> scroll_state option" where
  "HumanScroll_loop rd rnd deltaY st =
     (if \<bar>remaining st\<bar> > 0
      then HumanScroll_loop rd rnd deltaY (scroll_chunk rd rnd deltaY st)
      else Some st)"

declare HumanScroll_loop.simps [code]

definition HumanScroll_init :: "real \<Rightarrow> scroll_state" where
  "HumanScroll_init deltaY =
     \<lparr>remaining = deltaY, currentScroll = 0, draws = 0, events = [], chunks = []\<rparr>"

definition HumanScroll ::
  "(real \<Rightarrow> real) \<Rightarrow> (nat \<Rightarrow> real) \<Rightarrow> real \<Rightarrow> event list option" where
  "HumanScroll rd rnd deltaY =
     (if \<bar>deltaY\<bar> < 100 then Some [MouseScroll deltaY]
      else map_option events (HumanScroll_loop rd rnd deltaY (HumanScroll_init deltaY)))"



text \<open>
  Three facts of the rounding to the nearest \<^verbatim>\<open>float64\<close> (IEEE 754 binary64, 53 bits of
  precision): it is monotone; the numbers 0, 1, 100, 200 and 300 are \<^verbatim>\<open>float64\<close> values and
  round to themselves; and the \<^verbatim>\<open>float64\<close> values next to \<open>2 ^ 63\<close> are \<open>2 ^ 63 - 1024\<close> below
  it and \<open>2 ^ 63 + 2048\<close> above it, so that every real less than 512 below \<open>2 ^ 63\<close> rounds
  to \<open>2 ^ 63\<close>.
\<close>

definition binary64_facts :: "(real \<Rightarrow> real) \<Rightarrow> bool" where
  "binary64_facts rd \<longleftrightarrow>
     (\<forall>x y. x \<le> y \<longrightarrow> rd x \<le> rd y)
     \<and> rd 0 = 0 \<and> rd 1 = 1 \<and> rd 100 = 100 \<and> rd 200 = 200 \<and> rd 300 = 300
     \<and> (\<forall>x. 2 ^ 63 - 512 < x \<and> x \<le> 2 ^ 63 \<longrightarrow> rd x = 2 ^ 63)"

text \<open>
  A rounding with these facts, for examples: the identity but between \<open>2 ^ 63 - 1024\<close> and
  \<open>2 ^ 63\<close>, where it rounds to the nearer of the two (a tie to \<open>2 ^ 63\<close>, whose
  significand is even).
\<close>

definition round_near_2_63 :: "real \<Rightarrow> real" where
  "round_near_2_63 x =
     (if 2 ^ 63 - 1024 < x \<and> x < 2 ^ 63
      then (if x < 2 ^ 63 - 512 then 2 ^ 63 - 1024 else 2 ^ 63)
      else x)"

section \<open>Keystroke synthesizer (package browser, HumanType)\<close>

text \<open>
  The text is the list of its characters, \<^verbatim>\<open>[]rune(text)\<close>; \<^verbatim>\<open>string(char)\<close> is the
  one-character string. \<open>pick j\<close> is the raw value behind call number \<open>j\<close> of
  \<^verbatim>\<open>rand.Intn(len(alphanum))\<close>, which returns a value below its argument.
\<close>

definition alphanum :: string where
  "alphanum = ''abcdefghijklmnopqrstuvwxyz0123456789''"

definition typoRate :: real where
  "typoRate = 0.05"

text \<open>
  \<^verbatim>\<open>pickWrongChar\<close> draws until the character differs from the intended one; nothing
  bounds the number of draws.
\<close>

partial_function (option) pickWrongChar ::
  "(nat \<Rightarrow> nat) \<Rightarrow> nat \<Rightarrow> char \<Rightarrow> (char \<times> nat) option" where
  "pickWrongChar pick j correct =
     (let r = alphanum ! (pick j mod length alphanum)
      in if r \<noteq> correct then Some (r, j + 1) else pickWrongChar pick (j + 1) correct)"

declare pickWrongChar.simps [code]

text \<open>
  The loop over the characters: \<open>k\<close> counts the values drawn from \<^verbatim>\<open>rand.Float64\<close>, \<open>j\<close>
  those drawn from \<^verbatim>\<open>rand.Intn\<close>. The result is \<open>None\<close> when \<^verbatim>\<open>pickWrongChar\<close> does not
  return.
\<close>

fun HumanType_loop ::
  "(nat \<Rightarrow> real) \<Rightarrow> (nat \<Rightarrow> nat) \<Rightarrow> nat \<Rightarrow> nat \<Rightarrow> char list \<Rightarrow> event list option" where
  "HumanType_loop rnd pick k j [] = Some []"
| "HumanType_loop rnd pick k j (char # chars) =
     (if rnd k < typoRate then
        (case pickWrongChar pick j char of
           None \<Rightarrow> None
         | Some (wrongChar, j') \<Rightarrow>
             map_option (\<lambda>evs. [InsertText [wrongChar], KeyPress Backspace, InsertText [char]] @ evs)
               (HumanType_loop rnd pick (k + 1) j' chars))
      else
        map_option (\<lambda>evs. InsertText [char] # evs) (HumanType_loop rnd pick (k + 1) j chars))"

text \<open>
  \<open>focus\<close> is the result of \<^verbatim>\<open>element.Focus()\<close>. \<^verbatim>\<open>HumanType\<close> returns its error and the
  events it has dispatched.
\<close>

definition HumanType ::
  "error option \<Rightarrow> (nat \<Rightarrow> real) \<Rightarrow> (nat \<Rightarrow> nat) \<Rightarrow> string \<Rightarrow> (error option \<times> event list) option" where
  "HumanType focus rnd pick text =
     (case focus of
        Some err \<Rightarrow> Some (Some err, [])
      | None \<Rightarrow> map_option (\<lambda>evs. (None, evs)) (HumanType_loop rnd pick 0 0 (text)))"

text \<open>The insert-text events of a trace, and the text they insert.\<close>

fun inserts :: "event list \<Rightarrow> string list" where
  "inserts [] = []"
| "inserts (InsertText s # es) = s # inserts es"
| "inserts (e # es) = inserts es"

text \<open>A source of \<^verbatim>\<open>rand.Intn\<close> for examples: call number \<open>j\<close> draws \<open>j\<close>.\<close>

definition pick_seq :: "nat \<Rightarrow> nat" where
  "pick_seq j = j"

section \<open>Strings (package strings)\<close>

text \<open>\<^verbatim>\<open>strings.Contains(s, substr)\<close>: some suffix of \<open>s\<close> starts with \<open>substr\<close>.\<close>

fun Contains :: "string \<Rightarrow> string \<Rightarrow> bool" where
  "Contains [] substr = (substr = [])"
| "Contains (c # cs) substr = (prefix substr (c # cs) \<or> Contains cs substr)"

text \<open>\<^verbatim>\<open>strings.HasPrefix(s, p)\<close>.\<close>

definition HasPrefix :: "string \<Rightarrow> string \<Rightarrow> bool" where
  "HasPrefix s p = prefix p s"

text \<open>
  \<^verbatim>\<open>strings.Split(s, sep)[0]\<close> for a separator of one character: the part of \<open>s\<close> before
  the first separator, all of \<open>s\<close> when there is none.
\<close>

definition Split_first :: "string \<Rightarrow> char \<Rightarrow> string" where
  "Split_first s sep = takeWhile (\<lambda>c. c \<noteq> sep) s"

text \<open>\<^verbatim>\<open>strings.Join(elems, sep)\<close>.\<close>

fun Join :: "string list \<Rightarrow> string \<Rightarrow> string" where
  "Join [] sep = []"
| "Join [e] sep = e"
| "Join (e # es) sep = e @ sep @ Join es sep"

text \<open>
  \<^verbatim>\<open>strings.ReplaceAll(s, old, new)\<close> for a non-empty \<open>old\<close>, which is all this repository
  uses: the non-overlapping occurrences of \<open>old\<close>, from the left, become \<open>new\<close>.
\<close>

function ReplaceAll :: "string \<Rightarrow> string \<Rightarrow> string \<Rightarrow> string" where
  "ReplaceAll s old new =
     (if s = [] \<or> old = [] then s
      else if prefix old s then new @ ReplaceAll (drop (length old) s) old new
      else hd s # ReplaceAll (tl s) old new)"
  by pat_completeness auto
termination
  by (relation "measure (\<lambda>(s, old, new). length s)") auto

section \<open>Navigation (package browser, NavigateTo)\<close>

text \<open>
  \<open>nav url k\<close> is the result of attempt number \<open>k\<close> of \<^verbatim>\<open>Page.Navigate(url)\<close>.
  \<^verbatim>\<open>NavigateTo\<close> retries it up to 3 times, from 2s up to 10s.
\<close>

definition NavigateTo :: "(string \<Rightarrow> nat \<Rightarrow> error option) \<Rightarrow> string \<Rightarrow> error option" where
  "NavigateTo nav url = fst (RetryWithBackoff (nav url) 3 (2 * Second) (10 * Second))"

definition nav_ok :: "string \<Rightarrow> nat \<Rightarrow> error option" where
  "nav_ok url k = None"

section \<open>Search (search/search.go)\<close>

record Criteria =
  Keywords :: string
  Title :: string
  Company :: string
  Location :: string

text \<open>
  What the browser shows while the loop of \<^verbatim>\<open>SearchPeople\<close> is at a page: the result of
  \<^verbatim>\<open>Page.Elements("a")\<close> (\<open>None\<close> for an error), each element with the result of
  \<^verbatim>\<open>Attribute("href")\<close> (\<open>None\<close> for an error or a missing attribute), and the state of
  the button \<^verbatim>\<open>button[aria-label="Next"]\<close>. The wait for the results, the scroll bursts,
  the pauses and the click on the button change what the browser shows, not what
  \<^verbatim>\<open>SearchPeople\<close> computes from it.
\<close>

datatype next_button = NextAbsent | NextDisabled | NextEnabled

record search_page =
  anchors :: "string option list option"
  next_btn :: next_button

definition searchURL :: "Criteria \<Rightarrow> string" where
  "searchURL criteria =
     (let parts = [];
          parts = (if Keywords criteria \<noteq> [] then parts @ [Keywords criteria] else parts);
          parts = (if Title criteria \<noteq> [] then parts @ [Title criteria] else parts);
          parts = (if Company criteria \<noteq> [] then parts @ [Company criteria] else parts);
          parts = (if Location criteria \<noteq> [] then parts @ [Location criteria] else parts);
          fullQuery = Join parts '' '';
          safeQuery = ReplaceAll fullQuery '' '' ''%20''
      in ''https://www.linkedin.com/search/results/people/?keywords='' @ safeQuery)"

text \<open>The filter for profile links, and the clean-up of a link that passes it.\<close>

definition is_profile_link :: "string \<Rightarrow> bool" where
  "is_profile_link val \<longleftrightarrow> Contains val ''/in/'' \<and> \<not> Contains val ''/mini-profile/''"

definition cleanURL :: "string \<Rightarrow> string" where
  "cleanURL val =
     (let cleanURL = Split_first val CHR ''?''
      in if \<not> HasPrefix cleanURL ''http'' then ''https://www.linkedin.com'' @ cleanURL
         else cleanURL)"

text \<open>The loop over the elements; \<open>uniqueURLs\<close> is the map \<^verbatim>\<open>map[string]bool\<close>.\<close>

fun scan_anchors ::
  "string option list \<Rightarrow> (string \<Rightarrow> bool) \<Rightarrow> string list \<Rightarrow> (string \<Rightarrow> bool) \<times> string list" where
  "scan_anchors [] uniqueURLs results = (uniqueURLs, results)"
| "scan_anchors (href # elements) uniqueURLs results =
     (case href of
        None \<Rightarrow> scan_anchors elements uniqueURLs results
      | Some val \<Rightarrow>
          if is_profile_link val then
            (let cleanURL = cleanURL val
             in if \<not> uniqueURLs cleanURL
                then scan_anchors elements (uniqueURLs(cleanURL := True)) (results @ [cleanURL])
                else scan_anchors elements uniqueURLs results)
          else scan_anchors elements uniqueURLs results)"

text \<open>The loop over the pages, \<open>page\<close> from 1 to \<open>maxPages\<close>.\<close>

function pages_loop ::
  "(nat \<Rightarrow> search_page) \<Rightarrow> int \<Rightarrow> int \<Rightarrow> (string \<Rightarrow> bool) \<Rightarrow> string list \<Rightarrow> string list" where
  "pages_loop pages maxPages page uniqueURLs results =
     (if page \<le> maxPages then
        (let (uniqueURLs, results) =
               (case anchors (pages (nat page)) of
                  None \<Rightarrow> (uniqueURLs, results)
                | Some elements \<Rightarrow> scan_anchors elements uniqueURLs results)
         in if page < maxPages then
              (case next_btn (pages (nat page)) of
                 NextAbsent \<Rightarrow> results
               | NextDisabled \<Rightarrow> results
               | NextEnabled \<Rightarrow> pages_loop pages maxPages (page + 1) uniqueURLs results)
            else pages_loop pages maxPages (page + 1) uniqueURLs results)
      else results)"
  by pat_completeness auto
termination
  by (relation "measure (\<lambda>(pages, maxPages, page, uniqueURLs, results). nat (maxPages + 1 - page))")
    auto

definition SearchPeople ::
  "(string \<Rightarrow> nat \<Rightarrow> error option) \<Rightarrow> (nat \<Rightarrow> search_page) \<Rightarrow> Criteria \<Rightarrow> int
     \<Rightarrow> string list \<times> error option" where
  "SearchPeople nav pages criteria maxPages =
     (case NavigateTo nav (searchURL criteria) of
        Some err \<Rightarrow> ([], Some (Errorf ''failed to navigate to search: %w'' [W (Some err)]))
      | None \<Rightarrow> (pages_loop pages maxPages 1 (\<lambda>url. False) [], None))"

text \<open>The profile links among the elements of a page, in the order of the page.\<close>

definition profile_links :: "string option list \<Rightarrow> string list" where
  "profile_links elements = filter is_profile_link (map the (filter (\<lambda>h. h \<noteq> None) elements))"

text \<open>Appending to a list what it does not hold yet.\<close>

fun add_new :: "string list \<Rightarrow> string list \<Rightarrow> string list" where
  "add_new [] acc = acc"
| "add_new (u # us) acc = (if u \<in> set acc then add_new us acc else add_new us (acc @ [u]))"

text \<open>The page of the scenario: three profile links and a mini-profile link.\<close>

definition example_page :: "nat \<Rightarrow> search_page" where
  "example_page p =
     \<lparr>anchors = Some
        [Some ''/in/alice?miniProfileUrn=1'',
         Some ''/mini-profile/alice'',
         Some ''https://www.linkedin.com/in/bob'',
         Some ''/in/carol''],
      next_btn = NextAbsent\<rparr>"

definition example_criteria :: Criteria where
  "example_criteria =
     \<lparr>Keywords = ''Software Engineer'', Title = '''', Company = '''', Location = ''''\<rparr>"

section \<open>The browser as the action layer sees it\<close>

text \<open>
  A workflow of the action layer is modelled with the trace of its browser interactions,
  in order, one action per call: a navigation (\<^verbatim>\<open>NavigateTo\<close>), a query for an element by
  its selector (\<^verbatim>\<open>Has\<close>, \<^verbatim>\<open>HasX\<close>, \<^verbatim>\<open>Element\<close>, \<^verbatim>\<open>ElementX\<close>, \<^verbatim>\<open>MustElement\<close>), an
  observation of the element found by a selector or of the page (\<^verbatim>\<open>Visible\<close>,
  \<^verbatim>\<open>WaitVisible\<close>, \<^verbatim>\<open>Text\<close>, \<^verbatim>\<open>MustText\<close>, \<^verbatim>\<open>MustInfo\<close>), and the inputs: \<^verbatim>\<open>Input\<close> of a
  text into an element, \<^verbatim>\<open>HumanMove\<close> to an element, \<^verbatim>\<open>Click\<close> on it, \<^verbatim>\<open>HumanScroll\<close>,
  \<^verbatim>\<open>HumanType\<close> of a text into an element and \<^verbatim>\<open>Keyboard.Press\<close>. Logging and sleeping are
  no browser interactions.
\<close>

datatype action =
    Navigate string
  | Query string
  | Observe string
  | Input string string
  | Move string
  | Click string
  | Scroll real
  | TypeText string string
  | Press key

fun dispatches_input :: "action \<Rightarrow> bool" where
  "dispatches_input (Navigate url) = False"
| "dispatches_input (Query sel) = False"
| "dispatches_input (Observe sel) = False"
| "dispatches_input a = True"

text \<open>
  What the page answers, by selector: whether \<^verbatim>\<open>Has\<close> or \<^verbatim>\<open>HasX\<close> reports the element,
  whether \<^verbatim>\<open>Element\<close>, \<^verbatim>\<open>ElementX\<close> or \<^verbatim>\<open>MustElement\<close> finds it, and for the element found:
  the result of \<^verbatim>\<open>Visible\<close>, the error of \<^verbatim>\<open>WaitVisible\<close>, the error of \<^verbatim>\<open>Input\<close>, and its text
  (\<open>None\<close> when reading it fails). Within one call of \<^verbatim>\<open>Login\<close> before it submits, and of
  \<^verbatim>\<open>SendConnectionRequest\<close>, no such question is asked twice.
\<close>

record page =
  has :: "string \<Rightarrow> bool"
  element :: "string \<Rightarrow> bool"
  visible :: "string \<Rightarrow> bool"
  wait_visible :: "string \<Rightarrow> error option"
  input_err :: "string \<Rightarrow> error option"
  text_of :: "string \<Rightarrow> string option"

text \<open>The actions \<open>tr\<close>, then what \<open>rest\<close> does.\<close>

definition after :: "action list \<Rightarrow> 'a \<times> action list \<Rightarrow> 'a \<times> action list" where
  "after tr rest = (fst rest, tr @ snd rest)"

text \<open>
  The loop over a list of selectors that stops at the first one whose element is found
  and visible.
\<close>

fun find_visible :: "page \<Rightarrow> string list \<Rightarrow> string option \<times> action list" where
  "find_visible pg [] = (None, [])"
| "find_visible pg (sel # sels) =
     (if element pg sel then
        (if visible pg sel then (Some sel, [Query sel, Observe sel])
         else after [Query sel, Observe sel] (find_visible pg sels))
      else after [Query sel] (find_visible pg sels))"

text \<open>A page that answers no to everything, and one on which every element is there.\<close>

definition page_blank :: page where
  "page_blank = \<lparr>has = (\<lambda>sel. False), element = (\<lambda>sel. False), visible = (\<lambda>sel. False),
     wait_visible = (\<lambda>sel. None), input_err = (\<lambda>sel. None), text_of = (\<lambda>sel. None)\<rparr>"

section \<open>Login (package auth)\<close>

record Config =
  Username :: string
  Password :: string

text \<open>
  What one round of the polling loop sees: the feed, an error message (with the element
  found for it or not, and its text), and the title of the page (\<open>None\<close> when
  \<^verbatim>\<open>MustText\<close> or \<^verbatim>\<open>MustInfo\<close> panics). The loop runs while 30 seconds have not passed:
  the list holds the rounds that start before that.
\<close>

record poll =
  feed :: bool
  err_shown :: bool
  err_element :: bool
  err_text :: "string option"
  title :: "string option"

definition feedURL :: string where
  "feedURL = ''https://www.linkedin.com/feed/''"

definition loginURL :: string where
  "loginURL = ''https://www.linkedin.com/login''"

definition loggedInSelector :: string where
  "loggedInSelector = ''.global-nav__content''"

definition feedSelector :: string where
  "feedSelector = ''.global-nav__content''"

definition errorSelector :: string where
  "errorSelector = ''#error-for-username, #error-for-password, .alert-content''"

definition submitSelector :: string where
  \<open>submitSelector = ''button[type="submit"]''\<close>

definition sessionKeySelector :: string where
  \<open>sessionKeySelector = ''input[name="session_key"]''\<close>

definition sessionPasswordSelector :: string where
  \<open>sessionPasswordSelector = ''input[name="session_password"]''\<close>

fun Login_poll :: "poll list \<Rightarrow> error option \<times> action list" where
  "Login_poll [] = (Some (Error ''timeout waiting for login result''), [])"
| "Login_poll (p # ps) =
     after [Query feedSelector]
       (if feed p then (None, [])
        else after [Query errorSelector]
          (if err_shown p then
             after [Query errorSelector]
               (if err_element p then
                  after [Observe errorSelector]
                    (case err_text p of
                       None \<Rightarrow> (Some (Panic ''MustText''), [])
                     | Some text \<Rightarrow> (Some (Errorf ''login failed: %s'' [S text]), []))
                else (Some (Errorf ''login failed: %s'' [S '''']), []))
           else after [Observe ''title'']
             (case title p of
                None \<Rightarrow> (Some (Panic ''MustInfo''), [])
              | Some t \<Rightarrow>
                  if Contains t ''Security Verification'' \<or> Contains t ''Challenge''
                  then (Some (Error ''manual intervention required: 2FA/checkpoint detected''), [])
                  else Login_poll ps)))"

text \<open>A field by its selector, or else by its fallback selector.\<close>

definition find_field :: "page \<Rightarrow> string \<Rightarrow> string \<Rightarrow> string option \<times> action list" where
  "find_field pg sel fallback =
     (if element pg sel then (Some sel, [Query sel])
      else if element pg fallback then (Some fallback, [Query sel, Query fallback])
      else (None, [Query sel, Query fallback]))"

text \<open>Finding a field, waiting for it and filling it in: \<open>None\<close> when all went well.\<close>

definition enter_field ::
  "page \<Rightarrow> string \<Rightarrow> string \<Rightarrow> string \<Rightarrow> string \<Rightarrow> error option \<times> action list" where
  "enter_field pg what sel fallback val =
     (case find_field pg sel fallback of
        (None, tr) \<Rightarrow> (Some (Error (what @ '' field not found'')), tr)
      | (Some field, tr) \<Rightarrow>
          after (tr @ [Observe field])
            (case wait_visible pg field of
               Some err \<Rightarrow> (Some (Errorf (what @ '' field not visible: %w'') [W (Some err)]), [])
             | None \<Rightarrow>
                 after [Input field val]
                   (case input_err pg field of
                      Some err \<Rightarrow> (Some err, [])
                    | None \<Rightarrow> (None, []))))"

text \<open>Step 3 after the check of the credentials, and step 4.\<close>

definition Login_enter :: "page \<Rightarrow> poll list \<Rightarrow> Config \<Rightarrow> error option \<times> action list" where
  "Login_enter pg polls cfg =
     (case enter_field pg ''username'' ''#username'' sessionKeySelector (Username cfg) of
        (Some err, tr) \<Rightarrow> (Some err, tr)
      | (None, tr) \<Rightarrow>
          after tr
            (case enter_field pg ''password'' ''#password'' sessionPasswordSelector (Password cfg) of
               (Some err, tr) \<Rightarrow> (Some err, tr)
             | (None, tr) \<Rightarrow>
                 after (tr @ [Query submitSelector])
                   (if \<not> element pg submitSelector
                    then (Some (Error ''sign in button not found''), [])
                    else after [Move submitSelector, Click submitSelector] (Login_poll polls))))"

definition Login ::
  "(string \<Rightarrow> nat \<Rightarrow> error option) \<Rightarrow> page \<Rightarrow> poll list \<Rightarrow> Config \<Rightarrow> error option \<times> action list" where
  "Login nav pg polls cfg =
     after [Navigate feedURL]
       (case NavigateTo nav feedURL of
          Some err \<Rightarrow> (Some err, [])
        | None \<Rightarrow>
            after [Query loggedInSelector]
              (if has pg loggedInSelector then (None, [])
               else
                 after (Query ''#username'' #
                        (if \<not> has pg ''#username'' then [Navigate loginURL] else []))
                   (let user = Username cfg; pass = Password cfg
                    in if user = [] \<or> pass = []
                       then (Some (Error ''cannot login: credentials missing in config/env''), [])
                       else Login_enter pg polls cfg)))"

definition no_credentials :: Config where
  "no_credentials = \<lparr>Username = '''', Password = ''''\<rparr>"

section \<open>Connect (connect/connect.go)\<close>

record Service =
  DailyLimit :: int
  sentCount :: int

text \<open>The result of a call: its error and the service after it, with the trace.\<close>

type_synonym outcome = "(error option \<times> Service) \<times> action list"

text \<open>\<^verbatim>\<open>s.sentCount++\<close> on a machine integer.\<close>

definition count_sent :: "Service \<Rightarrow> Service" where
  "count_sent s = s\<lparr>sentCount := wrap64 (sentCount s + 1)\<rparr>"

definition directConnectSelectors :: "string list" where
  \<open>directConnectSelectors =
     [''//main//button[contains(@class, "artdeco-button--primary")][contains(., "Connect")]'',
      ''//button[contains(@aria-label, "Connect")][not(contains(@aria-label, "Invite"))]'']\<close>

definition moreXPath :: string where
  \<open>moreXPath = ''//main//button[contains(@aria-label, "More actions")]''\<close>

definition moreCSS :: string where
  \<open>moreCSS = ''button[aria-label="More actions"]''\<close>

definition menuOptions :: "string list" where
  \<open>menuOptions =
     [''//div[contains(@class, "artdeco-dropdown")]//span[text()="Connect"]'',
      ''//div[contains(@class, "artdeco-dropdown")]//span[text()="Add"]'',
      ''//div[contains(@class, "artdeco-dropdown")]//span[contains(text(), "Invite")]'',
      ''//div[@role="button"]//span[text()="Connect"]'',
      ''//div[@role="button"]//span[text()="Add"]'']\<close>

definition followSelectors :: "string list" where
  \<open>followSelectors =
     [''//button[contains(@aria-label, "Follow")]'',
      ''//button//span[text()="Follow"]'',
      ''//div[contains(@class, "artdeco-dropdown")]//span[text()="Follow"]'',
      ''//div[@role="button"]//span[text()="Follow"]'']\<close>

definition msgSelectors :: "string list" where
  \<open>msgSelectors =
     [''//button[contains(@aria-label, "Message")]'',
      ''//main//button[contains(., "Message")]'']\<close>

definition pendingXPath :: string where
  \<open>pendingXPath = ''//button[contains(., "Pending")]''\<close>

definition emailXPath :: string where
  \<open>emailXPath = ''//label[contains(., "Email")]''\<close>

definition addNoteXPath :: string where
  \<open>addNoteXPath = ''//button[contains(@aria-label, "Add a note") or contains(., "Add a note")]''\<close>

definition messageAreaSelector :: string where
  "messageAreaSelector = ''textarea[name='' @ [CHR 0x27] @ ''message'' @ [CHR 0x27] @ '']''"

definition sendNowSelector :: string where
  \<open>sendNowSelector = ''button[aria-label="Send now"]''\<close>

definition dialogSendXPath :: string where
  \<open>dialogSendXPath = ''//div[@role="dialog"]//button[contains(., "Send")]''\<close>

definition textboxXPath :: string where
  \<open>textboxXPath = ''//div[@role="textbox"][@contenteditable="true"]''\<close>

text \<open>\<^verbatim>\<open>tryFallbacks\<close>: Follow, or else Message.\<close>

definition tryFallbacks :: "page \<Rightarrow> Service \<Rightarrow> string \<Rightarrow> string \<Rightarrow> outcome" where
  "tryFallbacks pg s url msg =
     (case find_visible pg followSelectors of
        (Some followBtn, tr) \<Rightarrow>
          ((None, count_sent s), tr @ [Move followBtn, Click followBtn])
      | (None, tr) \<Rightarrow>
          after tr
            (case find_visible pg msgSelectors of
               (Some msgBtn, tr) \<Rightarrow>
                 after (tr @ [Move msgBtn, Click msgBtn, Query textboxXPath])
                   (if element pg textboxXPath then
                      (let cleanMsg = ReplaceAll msg ''{{name}}'' ''there''
                       in after [TypeText textboxXPath cleanMsg, Query submitSelector]
                            (if element pg submitSelector
                             then ((None, count_sent s), [Click submitSelector])
                             else ((Some (Error ''no Connect, Follow, or Message options found''), s),
                                   [])))
                    else ((Some (Error ''no Connect, Follow, or Message options found''), s), []))
             | (None, tr) \<Rightarrow>
                 ((Some (Error ''no Connect, Follow, or Message options found''), s), tr)))"

text \<open>Step 2: the \<^verbatim>\<open>More\<close> menu, when no direct button is visible.\<close>

definition find_in_more_menu :: "page \<Rightarrow> string option \<times> action list" where
  "find_in_more_menu pg =
     (let (moreBtn, tr) =
            (if element pg moreXPath then (Some moreXPath, [Query moreXPath])
             else if element pg moreCSS then (Some moreCSS, [Query moreXPath, Query moreCSS])
             else (None, [Query moreXPath, Query moreCSS]))
      in case moreBtn of
           Some moreBtn \<Rightarrow> after (tr @ [Move moreBtn, Click moreBtn]) (find_visible pg menuOptions)
         | None \<Rightarrow> (None, tr))"

text \<open>Step 3: the note, when the dialog offers one.\<close>

definition add_note :: "page \<Rightarrow> string \<Rightarrow> error option \<times> action list" where
  "add_note pg messageTemplate =
     after [Query addNoteXPath]
       (if element pg addNoteXPath then
          after [Click addNoteXPath, Query ''h1'']
            (let named =
                   (if element pg ''h1''
                    then (case text_of pg ''h1'' of
                            None \<Rightarrow> (None, [Observe ''h1''])
                          | Some name \<Rightarrow> (Some name, [Observe ''h1'']))
                    else (Some ''there'', []))
             in case named of
                  (None, tr) \<Rightarrow> (Some (Panic ''MustText''), tr)
                | (Some name, tr) \<Rightarrow>
                    (let name = Split_first name CHR '' '';
                         msg = ReplaceAll messageTemplate ''{{name}}'' name
                     in after (tr @ [Query messageAreaSelector])
                          (if element pg messageAreaSelector
                           then (None, [TypeText messageAreaSelector msg])
                           else (None, []))))
        else (None, []))"

text \<open>Step 4: the send button, the click and the count.\<close>

definition click_send :: "page \<Rightarrow> Service \<Rightarrow> outcome" where
  "click_send pg s =
     (let (sendBtn, tr) =
            (if element pg sendNowSelector then (Some sendNowSelector, [Query sendNowSelector])
             else if element pg dialogSendXPath
               then (Some dialogSendXPath, [Query sendNowSelector, Query dialogSendXPath])
             else (None, [Query sendNowSelector, Query dialogSendXPath]))
      in case sendBtn of
           None \<Rightarrow> ((Some (Error ''send button not found in dialog''), s), tr)
         | Some sendBtn \<Rightarrow> ((None, count_sent s), tr @ [Move sendBtn, Click sendBtn]))"

text \<open>After the click on the Connect button: the dialog.\<close>

definition after_connect_click :: "page \<Rightarrow> Service \<Rightarrow> string \<Rightarrow> outcome" where
  "after_connect_click pg s messageTemplate =
     after [Query ''body'']
       (if \<not> element pg ''body'' then ((Some (Panic ''MustElement''), s), [])
        else
          after [Observe ''body'']
            (let pageText = (case text_of pg ''body'' of Some t \<Rightarrow> t | None \<Rightarrow> [])
             in if Contains pageText ''weekly limit''
                then ((Some (Error ''weekly connection limit reached''), s), [])
                else
                  after [Query emailXPath]
                    (if has pg emailXPath then ((None, s), [Press Escape])
                     else if Contains pageText ''How do you know''
                       then ((None, s), [Press Escape])
                     else
                       (case add_note pg messageTemplate of
                          (Some err, tr) \<Rightarrow> ((Some err, s), tr)
                        | (None, tr) \<Rightarrow> after tr (click_send pg s)))))"

definition SendConnectionRequest ::
  "(string \<Rightarrow> nat \<Rightarrow> error option) \<Rightarrow> page \<Rightarrow> Service \<Rightarrow> string \<Rightarrow> string \<Rightarrow> outcome" where
  "SendConnectionRequest nav pg s profileURL messageTemplate =
     (if sentCount s \<ge> DailyLimit s
      then ((Some (Errorf ''daily connection limit reached (%d)'' [I (DailyLimit s)]), s), [])
      else
        after [Navigate profileURL]
          (case NavigateTo nav profileURL of
             Some err \<Rightarrow> ((Some err, s), [])
           | None \<Rightarrow>
               after (Query ''main'' # (if element pg ''main'' then [Observe ''main''] else [])
                      @ [Scroll 300, Query pendingXPath])
                 (if has pg pendingXPath then ((None, s), [])
                  else
                    (let (connectBtn, tr) = find_visible pg directConnectSelectors;
                         (connectBtn, tr) =
                           (if connectBtn = None then after tr (find_in_more_menu pg)
                            else (connectBtn, tr))
                     in after tr
                          (case connectBtn of
                             None \<Rightarrow> tryFallbacks pg s profileURL messageTemplate
                           | Some connectBtn \<Rightarrow>
                               after [Move connectBtn, Click connectBtn]
                                 (after_connect_click pg s messageTemplate))))))"

text \<open>A profile page with a visible Follow button and nothing else.\<close>

definition follow_page :: page where
  "follow_page = page_blank\<lparr>element := (\<lambda>sel. sel = hd followSelectors),
     visible := (\<lambda>sel. True)\<rparr>"

definition profileURL_example :: string where
  "profileURL_example = ''https://www.linkedin.com/in/alice''"

section \<open>Properties of the rounding\<close>

lemma float64_rounding_mono: "float64_rounding rd \<Longrightarrow> x \<le> y \<Longrightarrow> rd x \<le> rd y"
  by (simp add: float64_rounding_def)

lemma float64_rounding_int:
  "float64_rounding rd \<Longrightarrow> \<bar>n\<bar> \<le> 2 ^ 53 \<Longrightarrow> rd (real_of_int n) = real_of_int n"
  unfolding float64_rounding_def by blast

lemma float64_rounding_consts:
  assumes "float64_rounding rd"
  shows "rd 0 = 0" "rd 1 = 1" "rd (- 1) = - 1" "rd 100 = 100" "rd (- 100) = - 100"
    "rd 200 = 200" "rd 300 = 300" "rd (- 300) = - 300"
  using float64_rounding_int [OF assms, of 0] float64_rounding_int [OF assms, of 1]
    float64_rounding_int [OF assms, of "- 1"] float64_rounding_int [OF assms, of 100]
    float64_rounding_int [OF assms, of "- 100"] float64_rounding_int [OF assms, of 200]
    float64_rounding_int [OF assms, of 300] float64_rounding_int [OF assms, of "- 300"]
  by simp_all

lemma float64_rounding_error:
  "float64_rounding rd \<Longrightarrow> (1 / 2) ^ 1022 \<le> \<bar>x\<bar> \<Longrightarrow> \<bar>x\<bar> \<le> 2 ^ 1023
     \<Longrightarrow> \<bar>rd x - x\<bar> \<le> \<bar>x\<bar> / 2 ^ 53"
  unfolding float64_rounding_def by blast

lemma float64_rounding_nonneg: "float64_rounding rd \<Longrightarrow> 0 \<le> x \<Longrightarrow> 0 \<le> rd x"
  using float64_rounding_mono [of rd 0 x] float64_rounding_consts(1) [of rd] by simp

lemma float64_rounding_nonpos: "float64_rounding rd \<Longrightarrow> x \<le> 0 \<Longrightarrow> rd x \<le> 0"
  using float64_rounding_mono [of rd x 0] float64_rounding_consts(1) [of rd] by simp

text \<open>The smallest normal number is small and the largest power of two is large.\<close>

lemma min_normal_le: "(1 / 2) ^ 1022 \<le> (1 / 2 :: real)"
  using power_decreasing [of 1 1022 "1 / 2 :: real"] by simp

lemma max_power_ge: "(2 :: real) ^ 64 \<le> 2 ^ 1023"
  by (rule power_increasing) simp_all

lemma float64_rounding_small:
  assumes R: "float64_rounding rd" and x: "0 \<le> x" "x < (1 / 2) ^ 1022"
  shows "rd x < 1"
proof -
  define m :: real where "m = (1 / 2) ^ 1022"
  have m: "0 < m" "m \<le> 1 / 2" "m \<le> 2 ^ 1023"
    using min_normal_le max_power_ge by (simp_all add: m_def)
  have "\<bar>rd m - m\<bar> \<le> \<bar>m\<bar> / 2 ^ 53"
    using m by (intro float64_rounding_error [OF R]) (simp_all add: m_def)
  moreover have "\<bar>m\<bar> = m" using m(1) by simp
  ultimately have e: "\<bar>rd m - m\<bar> \<le> m / 2 ^ 53" by simp
  have h: "m / 2 ^ 53 \<le> m / 2" using m(1) by (simp add: field_simps)
  from e h have "rd m \<le> m + m / 2" by linarith
  with m(2) have "rd m < 1" by linarith
  moreover have "rd x \<le> rd m"
    using x(2) by (intro float64_rounding_mono [OF R]) (simp add: m_def)
  ultimately show ?thesis by linarith
qed

lemma float64_rounding_huge:
  assumes R: "float64_rounding rd" and x: "2 ^ 1023 \<le> x"
  shows "2 ^ 63 \<le> rd x"
proof -
  define M :: real where "M = 2 ^ 1023"
  have M: "2 ^ 64 \<le> M" using max_power_ge by (simp add: M_def)
  then have M0: "0 < M" by simp
  have "(1 / 2) ^ 1022 \<le> \<bar>M\<bar>" using min_normal_le M by simp
  then have "\<bar>rd M - M\<bar> \<le> \<bar>M\<bar> / 2 ^ 53"
    by (intro float64_rounding_error [OF R]) (simp_all add: M_def)
  moreover have "\<bar>M\<bar> = M" using M0 by simp
  ultimately have e: "\<bar>rd M - M\<bar> \<le> M / 2 ^ 53" by simp
  have h: "M / 2 ^ 53 \<le> M / 2" using M0 by (simp add: field_simps)
  from e h have "M / 2 \<le> rd M" by linarith
  moreover have "(2::real) ^ 63 \<le> M / 2" using M by simp
  moreover have "rd M \<le> rd x"
    using x by (intro float64_rounding_mono [OF R]) (simp add: M_def)
  ultimately show ?thesis by linarith
qed

lemma float64_rounding_normal:
  assumes R: "float64_rounding rd" and x: "(1 / 2) ^ 1022 \<le> x" "x \<le> 2 ^ 1023"
  shows "x * (1 - 1 / 2 ^ 53) \<le> rd x" and "rd x \<le> x * (1 + 1 / 2 ^ 53)"
proof -
  have x0: "0 < x" using x(1) by (rule less_le_trans [rotated]) simp
  have "\<bar>rd x - x\<bar> \<le> \<bar>x\<bar> / 2 ^ 53"
    using x x0 by (intro float64_rounding_error [OF R]) simp_all
  moreover have "\<bar>x\<bar> = x" using x0 by simp
  ultimately have e: "\<bar>rd x - x\<bar> \<le> x / 2 ^ 53" by simp
  define u where "u = x / 2 ^ 53"
  have eq: "x * (1 - 1 / 2 ^ 53) = x - u" "x * (1 + 1 / 2 ^ 53) = x + u"
    by (simp_all add: algebra_simps u_def)
  from e have "\<bar>rd x - x\<bar> \<le> u" by (simp add: u_def)
  then have "x - u \<le> rd x" "rd x \<le> x + u" by linarith+
  then show "x * (1 - 1 / 2 ^ 53) \<le> rd x" and "rd x \<le> x * (1 + 1 / 2 ^ 53)"
    by (simp_all only: eq)
qed


section \<open>The rounding to the nearest \<^verbatim>\<open>float64\<close>\<close>

lemma round_even_cases: "round_even y = \<lfloor>y\<rfloor> \<or> round_even y = \<lfloor>y\<rfloor> + 1"
  by (simp add: round_even_def Let_def)

lemma round_even_of_int [simp]: "round_even (real_of_int k) = k"
  by (simp add: round_even_def)

lemma round_even_numeral [simp]: "round_even (numeral k) = numeral k"
  using round_even_of_int [of "numeral k"] by simp

lemma round_even_zero [simp]: "round_even 0 = 0"
  using round_even_of_int [of 0] by simp

lemma round_even_one [simp]: "round_even 1 = 1"
  using round_even_of_int [of 1] by simp

lemma round_even_error: "\<bar>real_of_int (round_even y) - y\<bar> \<le> 1 / 2"
proof -
  define n where "n = \<lfloor>y\<rfloor>"
  define r where "r = y - real_of_int n"
  have r: "0 \<le> r" "r < 1" unfolding r_def n_def by linarith+
  show ?thesis
  proof (cases "r < 1 / 2 \<or> (r = 1 / 2 \<and> even n)")
    case True
    then have "round_even y = n" by (simp add: round_even_def Let_def n_def r_def)
    moreover from True have "r \<le> 1 / 2" by auto
    ultimately show ?thesis using r by (simp add: r_def)
  next
    case False
    then have "round_even y = n + 1" by (simp add: round_even_def Let_def n_def r_def)
    moreover from False have "1 / 2 \<le> r" by auto
    ultimately show ?thesis using r by (simp add: r_def)
  qed
qed

lemma round_even_mono: "x \<le> y \<Longrightarrow> round_even x \<le> round_even y"
proof -
  assume xy: "x \<le> y"
  then have fl: "\<lfloor>x\<rfloor> \<le> \<lfloor>y\<rfloor>" by (rule floor_mono)
  show ?thesis
  proof (cases "\<lfloor>x\<rfloor> = \<lfloor>y\<rfloor>")
    case False
    with fl have "\<lfloor>x\<rfloor> + 1 \<le> \<lfloor>y\<rfloor>" by simp
    with round_even_cases [of x] round_even_cases [of y] show ?thesis by linarith
  next
    case True
    with xy show ?thesis by (auto simp: round_even_def Let_def)
  qed
qed

lemma round_even_minus: "round_even (- y) = - round_even y"
proof (cases "y = real_of_int \<lfloor>y\<rfloor>")
  case True
  then obtain k where "y = real_of_int k" ..
  then have "- y = real_of_int (- k)" by simp
  then show ?thesis using \<open>y = real_of_int k\<close> by (simp only: round_even_of_int)
next
  case False
  define n where "n = \<lfloor>y\<rfloor>"
  define r where "r = y - real_of_int n"
  have r: "0 < r" "r < 1" using False unfolding r_def n_def by linarith+
  have f: "\<lfloor>- y\<rfloor> = - n - 1"
    using r by (intro floor_unique) (simp_all add: r_def)
  have ry: "- y - real_of_int (- n - 1) = 1 - r" by (simp add: r_def)
  have a: "round_even (- y)
      = (if 1 - r < 1 / 2 \<or> (1 - r = 1 / 2 \<and> even (- n - 1)) then - n - 1 else - n)"
    unfolding round_even_def Let_def f ry by simp
  have b: "round_even y = (if r < 1 / 2 \<or> (r = 1 / 2 \<and> even n) then n else n + 1)"
    by (simp add: round_even_def Let_def n_def r_def)
  have e: "even (- n - 1) \<longleftrightarrow> odd n" by simp
  consider "r < 1 / 2" | "r = 1 / 2" | "1 / 2 < r" by linarith
  then show ?thesis
  proof cases
    case 1
    then show ?thesis unfolding a b e by simp
  next
    case 2
    then show ?thesis unfolding a b e by simp
  next
    case 3
    then show ?thesis unfolding a b e by simp
  qed
qed

text \<open>The binary exponent.\<close>

lemma binade_ge: "- 1022 \<le> binade x"
  by (simp add: binade_def)

lemma binade_upper:
  assumes "x \<noteq> 0"
  shows "\<bar>x\<bar> < 2 powr (real_of_int (binade x) + 1)"
proof -
  from assms have p: "0 < \<bar>x\<bar>" by simp
  define k where "k = \<lfloor>log 2 \<bar>x\<bar>\<rfloor>"
  have "2 powr real_of_int k \<le> \<bar>x\<bar> \<and> \<bar>x\<bar> < 2 powr (real_of_int k + 1)"
    using floor_log_eq_powr_iff [OF p, of 2 k] by (simp add: k_def)
  then have "\<bar>x\<bar> < 2 powr (real_of_int k + 1)" ..
  also have "\<dots> \<le> 2 powr (real_of_int (binade x) + 1)"
    by (simp add: binade_def k_def)
  finally show ?thesis .
qed

lemma binade_lower:
  assumes "x \<noteq> 0" and "- 1022 < binade x \<or> 2 powr (- 1022) \<le> \<bar>x\<bar>"
  shows "2 powr real_of_int (binade x) \<le> \<bar>x\<bar>"
proof -
  from assms have p: "0 < \<bar>x\<bar>" by simp
  define k where "k = \<lfloor>log 2 \<bar>x\<bar>\<rfloor>"
  have kk: "2 powr real_of_int k \<le> \<bar>x\<bar>"
    using floor_log_eq_powr_iff [OF p, of 2 k] by (simp add: k_def)
  show ?thesis
  proof (cases "- 1022 \<le> k")
    case True
    then have "binade x = k" by (simp add: binade_def k_def)
    with kk show ?thesis by simp
  next
    case False
    then have b: "binade x = - 1022" by (simp add: binade_def k_def)
    with assms(2) have "2 powr (- 1022) \<le> \<bar>x\<bar>" by simp
    with b show ?thesis by simp
  qed
qed

lemma binade_mono:
  assumes "x \<noteq> 0" "\<bar>x\<bar> \<le> \<bar>y\<bar>"
  shows "binade x \<le> binade y"
proof -
  from assms have "0 < \<bar>x\<bar>" by simp
  with assms(2) have "log 2 \<bar>x\<bar> \<le> log 2 \<bar>y\<bar>" by simp
  then have "\<lfloor>log 2 \<bar>x\<bar>\<rfloor> \<le> \<lfloor>log 2 \<bar>y\<bar>\<rfloor>" by (rule floor_mono)
  then show ?thesis by (simp add: binade_def)
qed

lemma binade_eq:
  assumes "2 powr real_of_int e \<le> \<bar>x\<bar>" "\<bar>x\<bar> < 2 powr (real_of_int e + 1)" "- 1022 \<le> e"
  shows "binade x = e"
proof -
  have "0 < 2 powr real_of_int e" by simp
  with assms(1) have p: "0 < \<bar>x\<bar>" by linarith
  have "\<lfloor>log 2 \<bar>x\<bar>\<rfloor> = e"
    using floor_log_eq_powr_iff [OF p, of 2 e] assms by simp
  with assms(3) show ?thesis by (simp add: binade_def)
qed

lemma ulp_pos: "0 < ulp x"
  by (simp add: ulp_def)

lemma ulp_53: "2 powr (real_of_int (binade x) + 1) = 2 ^ 53 * ulp x"
proof -
  have "real_of_int (binade x) + 1 = (real_of_int (binade x) - 52) + 53" by simp
  then have "2 powr (real_of_int (binade x) + 1) = 2 powr ((real_of_int (binade x) - 52) + 53)"
    by (rule arg_cong)
  also have "\<dots> = 2 powr (real_of_int (binade x) - 52) * 2 powr 53" by (rule powr_add)
  also have "\<dots> = 2 ^ 53 * ulp x" by (simp add: ulp_def)
  finally show ?thesis .
qed

lemma ulp_52: "2 powr real_of_int (binade x) = 2 ^ 52 * ulp x"
proof -
  have "real_of_int (binade x) = (real_of_int (binade x) - 52) + 52" by simp
  then have "2 powr real_of_int (binade x) = 2 powr ((real_of_int (binade x) - 52) + 52)"
    by (rule arg_cong)
  also have "\<dots> = 2 powr (real_of_int (binade x) - 52) * 2 powr 52" by (rule powr_add)
  also have "\<dots> = 2 ^ 52 * ulp x" by (simp add: ulp_def)
  finally show ?thesis .
qed

lemma binary64_error: "\<bar>binary64 x - x\<bar> \<le> ulp x / 2"
proof (cases "x = 0")
  case True
  then show ?thesis using ulp_pos [of x] by (simp add: binary64_def)
next
  case False
  define u where "u = ulp x"
  have u: "0 < u" by (simp add: u_def ulp_pos)
  define q where "q = x / u"
  have x: "x = q * u" using u by (simp add: q_def)
  have "binary64 x - x = (real_of_int (round_even q) - q) * u"
    using False u by (simp add: binary64_def q_def u_def [symmetric] algebra_simps)
  then have "\<bar>binary64 x - x\<bar> = \<bar>real_of_int (round_even q) - q\<bar> * u"
    using u by (simp add: abs_mult)
  also have "\<dots> \<le> 1 / 2 * u"
    using round_even_error [of q] u by (intro mult_right_mono) simp_all
  finally show ?thesis by (simp add: u_def)
qed

text \<open>The three facts of \<open>float64_rounding\<close>.\<close>

lemma binary64_normal_error:
  assumes "2 powr (- 1022) \<le> \<bar>x\<bar>"
  shows "\<bar>binary64 x - x\<bar> \<le> \<bar>x\<bar> / 2 ^ 53"
proof -
  have "0 < 2 powr (- 1022 :: real)" by simp
  with assms have x0: "x \<noteq> 0" by auto
  have "ulp x / 2 = 2 powr real_of_int (binade x) * 2 powr (- 53)"
    by (simp add: ulp_def powr_diff powr_minus_divide)
  also have "\<dots> \<le> \<bar>x\<bar> * 2 powr (- 53)"
    using binade_lower [OF x0] assms by (intro mult_right_mono) simp_all
  also have "\<dots> = \<bar>x\<bar> / 2 ^ 53" by (simp add: powr_minus_divide)
  finally show ?thesis using binary64_error [of x] by linarith
qed

lemma binary64_of_int:
  assumes "\<bar>n\<bar> \<le> 2 ^ 53"
  shows "binary64 (real_of_int n) = real_of_int n"
proof (cases "n = 0")
  case True
  then show ?thesis by (simp add: binary64_def)
next
  case False
  define x where "x = real_of_int n"
  have x0: "x \<noteq> 0" using False by (simp add: x_def)
  have x1: "1 \<le> \<bar>x\<bar>" using False by (simp add: x_def)
  have xs: "\<bar>x\<bar> \<le> 2 ^ 53"
  proof -
    from assms have "real_of_int \<bar>n\<bar> \<le> real_of_int (2 ^ 53)" by (simp only: of_int_le_iff)
    then show ?thesis by (simp add: x_def)
  qed
  define e where "e = binade x"
  have e0: "0 \<le> e"
  proof -
    have "binade 1 \<le> binade x" using x1 by (intro binade_mono) simp_all
    then show ?thesis by (simp add: e_def binade_def)
  qed
  have e53: "e \<le> 53"
  proof -
    have "2 powr real_of_int e \<le> \<bar>x\<bar>"
      unfolding e_def using e0 by (intro binade_lower [OF x0]) (simp add: e_def)
    with xs have "2 powr real_of_int e \<le> 2 powr 53" by simp
    then have "real_of_int e \<le> 53" by (simp only: powr_le_cancel_iff)
    then show ?thesis by simp
  qed
  have "\<exists>k. x / ulp x = real_of_int k"
  proof (cases "e \<le> 52")
    case True
    define j where "j = nat (52 - e)"
    have "ulp x = 2 powr (- real j)" using True by (simp add: ulp_def e_def [symmetric] j_def)
    then have "ulp x = 1 / 2 ^ j" by (simp add: powr_minus_divide powr_realpow)
    then have "x / ulp x = real_of_int (n * 2 ^ j)" by (simp add: x_def)
    then show ?thesis ..
  next
    case False
    with e53 have e: "e = 53" by simp
    have "2 powr real_of_int e \<le> \<bar>x\<bar>"
      unfolding e_def using e0 by (intro binade_lower [OF x0]) (simp add: e_def)
    with xs e have "\<bar>x\<bar> = 2 ^ 53" by simp
    then have "\<bar>n\<bar> = 2 ^ 53"
      unfolding x_def by (metis of_int_abs of_int_eq_iff of_int_numeral of_int_power)
    then have n: "n = 2 ^ 53 \<or> n = - (2 ^ 53)" by linarith
    have "ulp x = 2" by (simp add: ulp_def e_def [symmetric] e)
    with n have "x / ulp x = real_of_int (2 ^ 52) \<or> x / ulp x = real_of_int (- (2 ^ 52))"
      by (auto simp: x_def)
    then show ?thesis by blast
  qed
  then obtain k where k: "x / ulp x = real_of_int k" ..
  have "binary64 x = real_of_int k * ulp x"
    using x0 by (simp add: binary64_def k)
  also have "\<dots> = x / ulp x * ulp x" by (simp add: k)
  also have "\<dots> = x" using ulp_pos [of x] by simp
  finally show ?thesis by (simp add: x_def)
qed

lemma binary64_nonneg: "0 \<le> x \<Longrightarrow> 0 \<le> binary64 x"
proof -
  assume "0 \<le> x"
  then have "0 \<le> x / ulp x" using ulp_pos [of x] by simp
  then have "round_even 0 \<le> round_even (x / ulp x)" by (rule round_even_mono)
  then have "0 \<le> round_even (x / ulp x)" using round_even_of_int [of 0] by simp
  then show ?thesis using ulp_pos [of x] by (simp add: binary64_def)
qed

lemma binary64_minus: "binary64 (- x) = - binary64 x"
proof -
  have "ulp (- x) = ulp x" by (simp add: ulp_def binade_def)
  then show ?thesis by (simp add: binary64_def round_even_minus)
qed

lemma binary64_mono_pos:
  assumes x: "0 < x" and xy: "x \<le> y"
  shows "binary64 x \<le> binary64 y"
proof -
  from x xy have y: "0 < y" by simp
  have x0: "x \<noteq> 0" and y0: "y \<noteq> 0" using x y by simp_all
  have le: "binade x \<le> binade y" using x xy by (intro binade_mono) simp_all
  show ?thesis
  proof (cases "binade x = binade y")
    case True
    then have u: "ulp y = ulp x" by (simp add: ulp_def)
    have "x / ulp x \<le> y / ulp x" using xy ulp_pos [of x] by (simp add: divide_right_mono)
    then have "round_even (x / ulp x) \<le> round_even (y / ulp x)" by (rule round_even_mono)
    then have "real_of_int (round_even (x / ulp x)) * ulp x
        \<le> real_of_int (round_even (y / ulp x)) * ulp x"
      using ulp_pos [of x] by (intro mult_right_mono) simp_all
    then show ?thesis using x0 y0 by (simp add: binary64_def u)
  next
    case False
    with le have lt: "binade x + 1 \<le> binade y" by simp
    have A: "binary64 x \<le> 2 powr (real_of_int (binade x) + 1)"
    proof -
      have "x < 2 powr (real_of_int (binade x) + 1)" using binade_upper [OF x0] x by simp
      also have "\<dots> = 2 ^ 53 * ulp x" by (rule ulp_53)
      finally have "x / ulp x \<le> 2 ^ 53" using ulp_pos [of x] by (simp add: field_simps)
      then have "x / ulp x \<le> real_of_int (2 ^ 53)" by simp
      then have "round_even (x / ulp x) \<le> round_even (real_of_int (2 ^ 53))"
        by (rule round_even_mono)
      then have "round_even (x / ulp x) \<le> 2 ^ 53" by (simp only: round_even_of_int)
      then have "real_of_int (round_even (x / ulp x)) \<le> real_of_int (2 ^ 53)"
        by (simp only: of_int_le_iff)
      then have "real_of_int (round_even (x / ulp x)) * ulp x \<le> real_of_int (2 ^ 53) * ulp x"
        using ulp_pos [of x] by (intro mult_right_mono) simp_all
      also have "\<dots> = 2 ^ 53 * ulp x" by simp
      also have "\<dots> = 2 powr (real_of_int (binade x) + 1)" by (rule ulp_53 [symmetric])
      finally show ?thesis using x0 by (simp add: binary64_def)
    qed
    have B: "2 powr real_of_int (binade y) \<le> binary64 y"
    proof -
      have "- 1022 < binade y" using lt binade_ge [of x] by linarith
      then have "2 powr real_of_int (binade y) \<le> \<bar>y\<bar>" by (intro binade_lower [OF y0]) simp
      moreover have "\<bar>y\<bar> = y" using y by simp
      ultimately have "2 powr real_of_int (binade y) \<le> y" by simp
      then have "2 ^ 52 * ulp y \<le> y" by (simp only: ulp_52)
      then have "2 ^ 52 \<le> y / ulp y" using ulp_pos [of y] by (simp add: field_simps)
      then have "real_of_int (2 ^ 52) \<le> y / ulp y" by simp
      then have "round_even (real_of_int (2 ^ 52)) \<le> round_even (y / ulp y)"
        by (rule round_even_mono)
      then have "2 ^ 52 \<le> round_even (y / ulp y)" by (simp only: round_even_of_int)
      then have "real_of_int (2 ^ 52) \<le> real_of_int (round_even (y / ulp y))"
        by (simp only: of_int_le_iff)
      then have "real_of_int (2 ^ 52) * ulp y \<le> real_of_int (round_even (y / ulp y)) * ulp y"
        using ulp_pos [of y] by (intro mult_right_mono) simp_all
      moreover have "real_of_int (2 ^ 52) * ulp y = 2 powr real_of_int (binade y)"
        by (simp add: ulp_52 [of y])
      ultimately show ?thesis using y0 by (simp add: binary64_def)
    qed
    have C: "2 powr (real_of_int (binade x) + 1) \<le> 2 powr real_of_int (binade y)"
    proof -
      from lt have "real_of_int (binade x) + 1 \<le> real_of_int (binade y)" by linarith
      then show ?thesis by simp
    qed
    from A B C show ?thesis by linarith
  qed
qed

lemma binary64_mono: "x \<le> y \<Longrightarrow> binary64 x \<le> binary64 y"
proof -
  assume xy: "x \<le> y"
  consider (pos) "0 < x" | (neg) "y < 0" | (mid) "x \<le> 0" "0 \<le> y" by linarith
  then show ?thesis
  proof cases
    case pos
    then show ?thesis using xy by (rule binary64_mono_pos)
  next
    case neg
    then have "0 < - y" "- y \<le> - x" using xy by simp_all
    then have "binary64 (- y) \<le> binary64 (- x)" by (rule binary64_mono_pos)
    then show ?thesis by (simp add: binary64_minus)
  next
    case mid
    then have "0 \<le> binary64 y" "0 \<le> binary64 (- x)" by (simp_all add: binary64_nonneg)
    then show ?thesis by (simp add: binary64_minus)
  qed
qed

lemma min_normal_powr: "2 powr (- 1022) = (1 / 2 :: real) ^ 1022"
proof -
  have "2 powr (- 1022) = 1 / (2 :: real) powr (real (1022 :: nat))"
    by (simp add: powr_minus_divide)
  also have "\<dots> = 1 / (2 :: real) ^ 1022" by (simp only: powr_realpow zero_less_numeral)
  also have "\<dots> = (1 / 2) ^ 1022" by (simp only: power_one_over)
  finally show ?thesis .
qed

lemma binary64_rounding: "float64_rounding binary64"
  unfolding float64_rounding_def
proof (intro conjI allI impI)
  fix x y :: real
  assume "x \<le> y"
  then show "binary64 x \<le> binary64 y" by (rule binary64_mono)
next
  fix n :: int
  assume "\<bar>n\<bar> \<le> 2 ^ 53"
  then show "binary64 (real_of_int n) = real_of_int n" by (rule binary64_of_int)
next
  fix x :: real
  assume "(1 / 2) ^ 1022 \<le> \<bar>x\<bar> \<and> \<bar>x\<bar> \<le> 2 ^ 1023"
  then have "2 powr (- 1022) \<le> \<bar>x\<bar>" by (simp only: min_normal_powr)
  then show "\<bar>binary64 x - x\<bar> \<le> \<bar>x\<bar> / 2 ^ 53" by (rule binary64_normal_error)
qed

text \<open>Rounding a number of a known binary exponent, for the evaluation of examples.\<close>

lemma binary64_zero [simp]: "binary64 0 = 0"
  by (simp add: binary64_def)

lemma binary64_one [simp]: "binary64 1 = 1"
  using binary64_of_int [of 1] by simp

lemma binary64_numeral:
  "\<bar>numeral k :: int\<bar> \<le> 2 ^ 53 \<Longrightarrow> binary64 (numeral k) = numeral k"
  using binary64_of_int [of "numeral k"] by simp

lemma powr_nat: "(2 :: real) powr real k = 2 ^ k"
  by (simp add: powr_realpow)

lemma powr_nat_Suc: "(2 :: real) powr (real k + 1) = 2 * 2 ^ k"
proof -
  have "real k + 1 = real (Suc k)" by simp
  then have "(2 :: real) powr (real k + 1) = 2 powr real (Suc k)" by (rule arg_cong)
  also have "\<dots> = 2 ^ Suc k" by (rule powr_nat)
  finally show ?thesis by simp
qed




lemma binary64_big_binade:
  assumes "2 ^ (52 + k) \<le> \<bar>x\<bar>" "\<bar>x\<bar> < 2 * 2 ^ (52 + k)"
  shows "binary64 x = real_of_int (round_even (x / 2 ^ k)) * 2 ^ k"
proof -
  have b: "binade x = int (52 + k)"
  proof (rule binade_eq)
    have "real_of_int (int (52 + k)) = real (52 + k)" by simp
    then show "2 powr real_of_int (int (52 + k)) \<le> \<bar>x\<bar>"
      using assms(1) by (simp only: powr_nat)
    have "real_of_int (int (52 + k)) + 1 = real (52 + k) + 1" by simp
    then show "\<bar>x\<bar> < 2 powr (real_of_int (int (52 + k)) + 1)"
      using assms(2) by (simp only: powr_nat_Suc)
    show "- 1022 \<le> int (52 + k)" by simp
  qed
  have "0 < (2 :: real) ^ (52 + k)" by simp
  with assms(1) have "0 < \<bar>x\<bar>" by linarith
  then have x0: "x \<noteq> 0" by simp
  have "real_of_int (int (52 + k)) - 52 = real k" by simp
  then have "ulp x = 2 powr (real k)" by (simp only: ulp_def b)
  then have u: "ulp x = 2 ^ k" by (simp only: powr_nat)
  show ?thesis using x0 by (simp add: binary64_def u)
qed


section \<open>Properties of the timing model\<close>

lemma wrap64_in64: "in64 (wrap64 x)"
proof -
  have "0 \<le> (x + 2 ^ 63) mod (2 ^ 64 :: int)" by simp
  moreover have "(x + 2 ^ 63) mod (2 ^ 64 :: int) < 2 ^ 64" by simp
  ultimately show ?thesis unfolding in64_def wrap64_def by simp
qed

lemma wrap64_id: "in64 x \<Longrightarrow> wrap64 x = x"
  unfolding in64_def wrap64_def by simp

lemma toDuration_in64: "in64 (toDuration oob x)"
  by (simp add: toDuration_def Let_def wrap64_in64)

lemma RandomDuration_no_sample: "mx \<le> mn \<Longrightarrow> RandomDuration r mn mx = Inr mn"
  by (simp add: RandomDuration_def)

lemma RandomDuration_nonneg_min:
  assumes "0 \<le> mn" "in64 mn" "in64 mx"
  shows "\<exists>d. RandomDuration r mn mx = Inr d \<and> mn \<le> d \<and> d < 2 ^ 63
           \<and> (d = mn \<and> mx \<le> mn \<or> d < mx \<and> mn < mx)"
proof (cases "mx \<le> mn")
  case True
  with assms show ?thesis by (simp add: RandomDuration_def in64_def)
next
  case False
  then have lt: "mn < mx" by simp
  from assms lt have d: "in64 (mx - mn)" "0 < mx - mn"
    by (simp_all add: in64_def)
  define v where "v = int r mod (mx - mn)"
  have v: "0 \<le> v" "v < mx - mn"
    using d(2) by (simp_all add: v_def)
  from v assms lt have "in64 (mn + v)" by (simp add: in64_def)
  then have "RandomDuration r mn mx = Inr (mn + v)"
    using lt d by (simp add: RandomDuration_def Int63n_def wrap64_id v_def Let_def)
  with v lt assms(3) show ?thesis by (auto simp: in64_def)
qed

lemma SleepWithJitter_total: "\<exists>d. SleepWithJitter rd r oob base deviation = Inr d \<and> 0 \<le> d"
proof -
  define dev where "dev = (if deviation < 0 then 0 else deviation)"
  define delta where "delta = toDuration oob (rd (rd (real_of_int base) * dev))"
  define mn where "mn = (if wrap64 (base - delta) < 0 then 0 else wrap64 (base - delta))"
  define mx where "mx = wrap64 (base + delta)"
  have eq: "SleepWithJitter rd r oob base deviation = RandomDuration r mn mx"
    by (simp add: SleepWithJitter_def SleepRandom_def Let_def dev_def delta_def mn_def mx_def)
  have "0 \<le> mn" by (simp add: mn_def)
  moreover have "in64 mn" using wrap64_in64 [of "base - delta"] by (simp add: mn_def in64_def)
  moreover have "in64 mx" by (simp add: mx_def wrap64_in64)
  ultimately obtain d where "RandomDuration r mn mx = Inr d" "mn \<le> d"
    using RandomDuration_nonneg_min by blast
  with \<open>0 \<le> mn\<close> eq show ?thesis by auto
qed

lemma float_trunc_nonneg: "0 \<le> x \<Longrightarrow> 0 \<le> float_trunc x \<and> real_of_int (float_trunc x) \<le> x"
  by (simp add: float_trunc_def)

lemma defaultTimings_bounds:
  "(case defaultTimings action of
      Some c \<Rightarrow> c
    | None \<Rightarrow> \<lparr>Min = 500 * Millisecond, Max = 1000 * Millisecond\<rparr>) = config
   \<Longrightarrow> 0 \<le> Min config \<and> Min config \<le> Max config \<and> Max config \<le> 5 * Second"
  by (auto simp: defaultTimings_def Millisecond_def Second_def split: if_splits)

lemma defaultTimings_exact:
  assumes R: "float64_rounding rd"
    and c: "(case defaultTimings action of
      Some c \<Rightarrow> c
    | None \<Rightarrow> \<lparr>Min = 500 * Millisecond, Max = 1000 * Millisecond\<rparr>) = config"
  shows "rd (real_of_int (Min config)) = real_of_int (Min config)"
    and "rd (real_of_int (Max config)) = real_of_int (Max config)"
proof -
  have b: "0 \<le> Min config" "Min config \<le> Max config" "Max config \<le> 5 * Second"
    using defaultTimings_bounds [OF c] by simp_all
  then have "\<bar>Min config\<bar> \<le> 2 ^ 53" "\<bar>Max config\<bar> \<le> 2 ^ 53"
    by (simp_all add: Second_def)
  then show "rd (real_of_int (Min config)) = real_of_int (Min config)"
    and "rd (real_of_int (Max config)) = real_of_int (Max config)"
    by (simp_all add: float64_rounding_int [OF R])
qed

text \<open>
  \<^verbatim>\<open>SleepContextual\<close> returns normally for every action and every intensity from 0 to
  \<open>2 ^ 30\<close>, which covers every call in this repository.
\<close>

lemma SleepContextual_in_range_total:
  assumes R: "float64_rounding rd" and "0 \<le> intensity" "intensity \<le> 2 ^ 30"
  shows "\<exists>d. SleepContextual rd r oob action intensity = Inr d \<and> 0 \<le> d"
proof -
  define config where "config = (case defaultTimings action of
      Some c \<Rightarrow> c
    | None \<Rightarrow> \<lparr>Min = 500 * Millisecond, Max = 1000 * Millisecond\<rparr>)"
  have c: "0 \<le> Min config" "Min config \<le> Max config" "Max config \<le> 5 * Second"
    using defaultTimings_bounds [OF config_def [symmetric]] by simp_all
  note ex = defaultTimings_exact [OF R config_def [symmetric]]
  define x where "x = real_of_int (Min config) * intensity"
  define y where "y = rd x"
  define mn where "mn = toDuration oob y"
  define mx where "mx = toDuration oob (rd (real_of_int (Max config) * intensity))"
  have eq: "SleepContextual rd r oob action intensity = RandomDuration r mn mx"
    by (simp add: SleepContextual_def SleepRandom_def Let_def config_def [symmetric] ex
        mn_def mx_def y_def x_def)
  have x0: "0 \<le> x" using c(1) assms(2) by (simp add: x_def)
  have y0: "0 \<le> y" unfolding y_def using R x0 by (rule float64_rounding_nonneg)
  have xb: "x \<le> 5 * 10 ^ 9 * 2 ^ 30"
    unfolding x_def using c assms by (intro mult_mono) (simp_all add: Second_def)
  have yb: "y < 2 ^ 63"
  proof (cases "x < (1 / 2) ^ 1022")
    case True
    from float64_rounding_small [OF R x0 True] show ?thesis by (simp add: y_def)
  next
    case False
    have "x \<le> 2 ^ 64" using xb by simp
    with max_power_ge have "x \<le> 2 ^ 1023" by linarith
    with False have "y \<le> x * (1 + 1 / 2 ^ 53)"
      unfolding y_def by (intro float64_rounding_normal(2) [OF R]) simp_all
    also have "\<dots> \<le> 5 * 10 ^ 9 * 2 ^ 30 * (1 + 1 / 2 ^ 53)"
      using xb by (intro mult_right_mono) simp_all
    also have "\<dots> < 2 ^ 63" by simp
    finally show ?thesis .
  qed
  have r: "in64 mn" "in64 mx" by (simp_all add: mn_def mx_def toDuration_in64)
  have mn0: "0 \<le> mn"
  proof -
    have "real_of_int (float_trunc y) < 2 ^ 63"
      using float_trunc_nonneg [OF y0] yb by simp
    then have "float_trunc y < 2 ^ 63"
      by (metis of_int_less_iff of_int_numeral of_int_power)
    with float_trunc_nonneg [OF y0] have "in64 (float_trunc y)"
      by (simp add: in64_def)
    then show ?thesis using float_trunc_nonneg [OF y0] by (simp add: mn_def toDuration_def)
  qed
  obtain d where "RandomDuration r mn mx = Inr d" "mn \<le> d"
    using RandomDuration_nonneg_min [OF mn0 r, of r] by blast
  with mn0 eq show ?thesis by auto
qed

lemma float_trunc_mono: "x \<le> y \<Longrightarrow> float_trunc x \<le> float_trunc y"
proof -
  assume xy: "x \<le> y"
  consider (pos) "0 \<le> x" | (neg) "y < 0" | (mixed) "x < 0" "0 \<le> y" by linarith
  then show ?thesis
  proof cases
    case pos
    with xy have "0 \<le> y" by simp
    with pos xy show ?thesis by (simp add: float_trunc_def floor_mono)
  next
    case neg
    with xy have "x < 0" by simp
    with neg xy show ?thesis by (simp add: float_trunc_def ceiling_mono)
  next
    case mixed
    then have b: "\<lceil>x\<rceil> \<le> 0" "0 \<le> \<lfloor>y\<rfloor>" by (simp_all add: ceiling_le_iff)
    have "float_trunc x = \<lceil>x\<rceil>" "float_trunc y = \<lfloor>y\<rfloor>"
      using mixed by (simp_all add: float_trunc_def)
    with b show ?thesis by linarith
  qed
qed

lemma toDuration_amd64:
  "toDuration amd64_oob x = (if in64 (float_trunc x) then float_trunc x else - (2 ^ 63))"
  by (simp add: toDuration_def Let_def amd64_oob_def wrap64_def)

text \<open>
  With the conversion of amd64, which yields the smallest \<^verbatim>\<open>int64\<close> for every value out
  of range, \<^verbatim>\<open>SleepContextual\<close> returns normally for every action and every intensity:
  both bounds are scaled by the same intensity, so either the range is empty or its lower
  end is not negative.
\<close>

lemma SleepContextual_amd64_total:
  assumes R: "float64_rounding rd"
  shows "\<exists>d. SleepContextual rd r amd64_oob action intensity = Inr d"
proof -
  define config where "config = (case defaultTimings action of
      Some c \<Rightarrow> c
    | None \<Rightarrow> \<lparr>Min = 500 * Millisecond, Max = 1000 * Millisecond\<rparr>)"
  have c: "0 \<le> Min config" "Min config \<le> Max config"
    using defaultTimings_bounds [OF config_def [symmetric]] by simp_all
  note ex = defaultTimings_exact [OF R config_def [symmetric]]
  define y1 where "y1 = rd (real_of_int (Min config) * intensity)"
  define y2 where "y2 = rd (real_of_int (Max config) * intensity)"
  define t1 where "t1 = float_trunc y1"
  define t2 where "t2 = float_trunc y2"
  define mn where "mn = toDuration amd64_oob y1"
  define mx where "mx = toDuration amd64_oob y2"
  have eq: "SleepContextual rd r amd64_oob action intensity = RandomDuration r mn mx"
    by (simp add: SleepContextual_def SleepRandom_def Let_def config_def [symmetric] ex
        mn_def mx_def y1_def y2_def)
  have mn: "mn = (if in64 t1 then t1 else - (2 ^ 63))"
    and mx: "mx = (if in64 t2 then t2 else - (2 ^ 63))"
    by (simp_all add: mn_def mx_def t1_def t2_def toDuration_amd64)
  have r: "in64 mn" "in64 mx" by (simp_all add: mn_def mx_def toDuration_in64)
  have "mx \<le> mn \<or> 0 \<le> mn"
  proof (cases "0 \<le> intensity")
    case True
    then have "real_of_int (Min config) * intensity \<le> real_of_int (Max config) * intensity"
      using c by (intro mult_right_mono) simp_all
    then have "y1 \<le> y2" unfolding y1_def y2_def by (rule float64_rounding_mono [OF R])
    then have le: "t1 \<le> t2" unfolding t1_def t2_def by (rule float_trunc_mono)
    have "0 \<le> real_of_int (Min config) * intensity" using True c by simp
    then have "0 \<le> y1" unfolding y1_def by (rule float64_rounding_nonneg [OF R])
    then have t10: "0 \<le> t1" unfolding t1_def using float_trunc_nonneg by blast
    show ?thesis
    proof (cases "in64 t2")
      case True
      with le t10 have "in64 t1" by (simp add: in64_def)
      with t10 show ?thesis by (simp add: mn)
    next
      case False
      then have "mx = - (2 ^ 63)" by (simp add: mx)
      with r(1) show ?thesis by (simp add: in64_def)
    qed
  next
    case False
    then have "real_of_int (Max config) * intensity \<le> real_of_int (Min config) * intensity"
      using c by (intro mult_right_mono_neg) simp_all
    then have "y2 \<le> y1" unfolding y1_def y2_def by (rule float64_rounding_mono [OF R])
    then have le: "t2 \<le> t1" unfolding t1_def t2_def by (rule float_trunc_mono)
    have "real_of_int (Min config) * intensity \<le> 0"
      using False c by (simp add: mult_nonneg_nonpos)
    then have "y1 \<le> 0" unfolding y1_def by (rule float64_rounding_nonpos [OF R])
    then have "t1 \<le> float_trunc 0" unfolding t1_def by (rule float_trunc_mono)
    then have t10: "t1 \<le> 0" by (simp add: float_trunc_def)
    show ?thesis
    proof (cases "in64 t2")
      case True
      with le t10 have "in64 t1" by (simp add: in64_def)
      with True le show ?thesis by (simp add: mn mx)
    next
      case False
      then have "mx = - (2 ^ 63)" by (simp add: mx)
      with r(1) show ?thesis by (simp add: in64_def)
    qed
  qed
  then show ?thesis
  proof
    assume "mx \<le> mn"
    then show ?thesis by (simp add: eq RandomDuration_no_sample)
  next
    assume "0 \<le> mn"
    from RandomDuration_nonneg_min [OF this r, of r] show ?thesis by (auto simp: eq)
  qed
qed

text \<open>
  The product \<^verbatim>\<open>float64(base) * deviation\<close> as the code computes it, truncated, is at most
  the exact product enlarged by the two roundings, or both are beyond every \<^verbatim>\<open>int64\<close>.
\<close>

lemma round_twice: "(1 + 1 / 2 ^ 53) * (1 + 1 / 2 ^ 53) \<le> (1 + 1 / 2 ^ 51 :: real)"
  by simp

lemma jitter_product:
  assumes R: "float64_rounding rd" and b0: "0 \<le> base" and b64: "in64 base" and f0: "0 \<le> f"
  shows "0 \<le> rd (rd (real_of_int base) * f)"
    and "real_of_int (float_trunc (rd (rd (real_of_int base) * f)))
           \<le> real_of_int base * (f * (1 + 1 / 2 ^ 51))
         \<or> 2 ^ 63 \<le> real_of_int base * (f * (1 + 1 / 2 ^ 51))"
proof -
  define B where "B = real_of_int base"
  define p where "p = rd B * f"
  define y where "y = rd p"
  define X where "X = B * (f * (1 + 1 / 2 ^ 51))"
  have B0: "0 \<le> B" using b0 by (simp add: B_def)
  have fb: "0 \<le> rd B" "rd B \<le> B * (1 + 1 / 2 ^ 53)"
  proof -
    show "0 \<le> rd B" using R B0 by (rule float64_rounding_nonneg)
    show "rd B \<le> B * (1 + 1 / 2 ^ 53)"
    proof (cases "base = 0")
      case True
      then show ?thesis by (simp add: B_def float64_rounding_consts(1) [OF R])
    next
      case False
      with b0 have "1 \<le> base" by simp
      then have B1: "1 \<le> B" by (simp add: B_def)
      have "real_of_int base < 2 ^ 63" using b64
        by (metis in64_def of_int_less_iff of_int_numeral of_int_power)
      then have "B \<le> 2 ^ 64" by (simp add: B_def)
      with max_power_ge have "B \<le> 2 ^ 1023" by linarith
      moreover have "(1 / 2) ^ 1022 \<le> B" using min_normal_le B1 by linarith
      ultimately show ?thesis by (intro float64_rounding_normal(2) [OF R])
    qed
  qed
  have p0: "0 \<le> p" using fb(1) f0 by (simp add: p_def)
  have pb: "p \<le> B * f * (1 + 1 / 2 ^ 53)"
  proof -
    have "rd B * f \<le> B * (1 + 1 / 2 ^ 53) * f" using fb(2) f0 by (rule mult_right_mono)
    then show ?thesis by (simp add: p_def mult.assoc mult.left_commute mult.commute)
  qed
  have Bf: "0 \<le> B * f" using B0 f0 by simp
  have X1: "B * f * (1 + 1 / 2 ^ 53) \<le> X"
  proof -
    have "B * f * (1 + 1 / 2 ^ 53) \<le> B * f * (1 + 1 / 2 ^ 51)"
      using Bf by (intro mult_left_mono) simp_all
    then show ?thesis by (simp add: X_def mult.assoc)
  qed
  have X2: "B * f * (1 + 1 / 2 ^ 53) * (1 + 1 / 2 ^ 53) \<le> X"
  proof -
    have "B * f * ((1 + 1 / 2 ^ 53) * (1 + 1 / 2 ^ 53)) \<le> B * f * (1 + 1 / 2 ^ 51)"
      using Bf round_twice by (rule mult_left_mono [rotated])
    then show ?thesis by (simp add: X_def mult.assoc)
  qed
  have y0: "0 \<le> y" unfolding y_def using R p0 by (rule float64_rounding_nonneg)
  have "real_of_int (float_trunc y) \<le> X \<or> 2 ^ 63 \<le> X"
  proof (cases "p < (1 / 2) ^ 1022")
    case True
    from float64_rounding_small [OF R p0 True] have "y < 1" by (simp add: y_def)
    with y0 have "float_trunc y = 0" by (simp add: float_trunc_def floor_eq_iff)
    moreover have "0 \<le> X" using Bf by (simp add: X_def mult.assoc [symmetric])
    ultimately show ?thesis by simp
  next
    case small: False
    show ?thesis
    proof (cases "p \<le> 2 ^ 1023")
      case True
      with small have "y \<le> p * (1 + 1 / 2 ^ 53)"
        unfolding y_def by (intro float64_rounding_normal(2) [OF R]) simp_all
      also have "\<dots> \<le> B * f * (1 + 1 / 2 ^ 53) * (1 + 1 / 2 ^ 53)"
        using pb by (intro mult_right_mono) simp_all
      also have "\<dots> \<le> X" by (rule X2)
      finally have "y \<le> X" .
      with float_trunc_nonneg [OF y0] show ?thesis by linarith
    next
      case False
      then have "2 ^ 1023 \<le> B * f * (1 + 1 / 2 ^ 53)" using pb by linarith
      with X1 max_power_ge have "2 ^ 64 \<le> X" by linarith
      then have "2 ^ 63 \<le> X" by simp
      then show ?thesis ..
    qed
  qed
  then show "real_of_int (float_trunc (rd (rd (real_of_int base) * f)))
           \<le> real_of_int base * (f * (1 + 1 / 2 ^ 51))
         \<or> 2 ^ 63 \<le> real_of_int base * (f * (1 + 1 / 2 ^ 51))"
    by (simp add: y_def p_def B_def X_def)
  from y0 show "0 \<le> rd (rd (real_of_int base) * f)" by (simp add: y_def p_def B_def)
qed

text \<open>
  C6, as amended. For a base \<open>b \<ge> 0\<close> and a deviation \<open>f \<ge> 0\<close>, \<^verbatim>\<open>SleepWithJitter\<close>
  returns normally and the duration \<open>d\<close> it sleeps satisfies
  \<open>b * (1 - f') \<le> d \<le> b * (1 + f')\<close> and \<open>d \<ge> 0\<close>, where \<open>f' = f * (1 + 1 / 2 ^ 51)\<close> is the
  deviation enlarged by the two roundings of \<^verbatim>\<open>float64(base) * deviation\<close>; this for every
  value of the random source and every behaviour of the out-of-range conversion.
\<close>

theorem SleepWithJitter_bounds:
  assumes R: "float64_rounding rd"
    and b0: "0 \<le> base" and b64: "in64 base" and f0: "0 \<le> deviation"
  shows "\<exists>d. SleepWithJitter rd r oob base deviation = Inr d
     \<and> real_of_int base * (1 - deviation * (1 + 1 / 2 ^ 51)) \<le> real_of_int d
     \<and> real_of_int d \<le> real_of_int base * (1 + deviation * (1 + 1 / 2 ^ 51)) \<and> 0 \<le> d"
proof -
  define y where "y = rd (rd (real_of_int base) * deviation)"
  define x where "x = real_of_int base * (deviation * (1 + 1 / 2 ^ 51))"
  define delta where "delta = toDuration oob y"
  define mn where "mn = (if wrap64 (base - delta) < 0 then 0 else wrap64 (base - delta))"
  define mx where "mx = wrap64 (base + delta)"
  have eq: "SleepWithJitter rd r oob base deviation = RandomDuration r mn mx"
    using f0 by (simp add: SleepWithJitter_def SleepRandom_def Let_def y_def delta_def mn_def mx_def)
  have y0: "0 \<le> y" unfolding y_def by (rule jitter_product(1) [OF R b0 b64 f0])
  have yx: "real_of_int (float_trunc y) \<le> x \<or> 2 ^ 63 \<le> x"
    unfolding y_def x_def by (rule jitter_product(2) [OF R b0 b64 f0])
  have x0: "0 \<le> x" using b0 f0 by (simp add: x_def)
  have mn0: "0 \<le> mn" by (simp add: mn_def)
  have mn64: "in64 mn" using wrap64_in64 [of "base - delta"] by (simp add: mn_def in64_def)
  have mx64: "in64 mx" by (simp add: mx_def wrap64_in64)
  obtain d where d: "RandomDuration r mn mx = Inr d" "mn \<le> d" "d < 2 ^ 63"
      "d = mn \<and> mx \<le> mn \<or> d < mx \<and> mn < mx"
    using RandomDuration_nonneg_min [OF mn0 mn64 mx64] by blast
  have lo_hi: "real_of_int base - x \<le> real_of_int d \<and> real_of_int d \<le> real_of_int base + x"
  proof (cases "in64 (float_trunc y)")
    case True
    define t where "t = float_trunc y"
    have t0: "0 \<le> t" using float_trunc_nonneg [OF y0] by (simp add: t_def)
    have "real_of_int t < 2 ^ 63" using True
      by (metis in64_def of_int_less_iff of_int_numeral of_int_power t_def)
    with yx have tx: "real_of_int t \<le> x" unfolding t_def by linarith
    note t = t0 tx
    have delta: "delta = t" using True by (simp add: delta_def toDuration_def t_def)
    have "in64 (base - t)" using b0 b64 t(1) True by (simp add: in64_def t_def)
    then have mn: "mn = (if base - t < 0 then 0 else base - t)"
      by (simp add: mn_def delta wrap64_id)
    have lo: "real_of_int base - x \<le> real_of_int d"
    proof -
      have "base - t \<le> mn" by (simp add: mn)
      then have "base - t \<le> d" using d(2) by simp
      then have "real_of_int base - real_of_int t \<le> real_of_int d" by linarith
      with t(2) show ?thesis by linarith
    qed
    have hi: "real_of_int d \<le> real_of_int base + x"
    proof (cases "mn < mx")
      case False
      with d(4) have "d = mn" by auto
      then have "d \<le> base" using b0 t(1) by (simp add: mn)
      then have "real_of_int d \<le> real_of_int base" by simp
      with x0 show ?thesis by linarith
    next
      case lt: True
      with mn0 have "0 < mx" by simp
      have "in64 (base + t)"
      proof (rule ccontr)
        assume "\<not> in64 (base + t)"
        then have ge: "2 ^ 63 \<le> base + t" using b0 t(1) by (simp add: in64_def)
        have "base + t < 2 ^ 64" using b64 True by (simp add: in64_def t_def)
        have "base + t + 2 ^ 63 = (base + t - 2 ^ 63) + 2 ^ 64" by simp
        then have "(base + t + 2 ^ 63) mod 2 ^ 64 = (base + t - 2 ^ 63) mod 2 ^ 64"
          by (metis mod_add_self2)
        also have "\<dots> = base + t - 2 ^ 63"
          using ge \<open>base + t < 2 ^ 64\<close> by simp
        finally have "wrap64 (base + t) = base + t - 2 ^ 64"
          by (simp add: wrap64_def)
        with \<open>base + t < 2 ^ 64\<close> have "mx < 0" by (simp add: mx_def delta)
        with \<open>0 < mx\<close> show False by simp
      qed
      then have "mx = base + t" by (simp add: mx_def delta wrap64_id)
      with d(4) lt have "d < base + t" by simp
      then have "real_of_int d \<le> real_of_int base + real_of_int t" by linarith
      with t(2) show ?thesis by linarith
    qed
    from lo hi show ?thesis ..
  next
    case False
    have t0: "0 \<le> float_trunc y" using float_trunc_nonneg [OF y0] by simp
    with False have "2 ^ 63 \<le> float_trunc y" by (simp add: in64_def)
    then have "(2::real) ^ 63 \<le> real_of_int (float_trunc y)"
      by (metis of_int_le_iff of_int_numeral of_int_power)
    with yx have big: "(2::real) ^ 63 \<le> x" by linarith
    have "real_of_int base < 2 ^ 63" using b64
      by (metis in64_def of_int_less_iff of_int_numeral of_int_power)
    with big have "real_of_int base \<le> x" by linarith
    moreover have "0 \<le> real_of_int d" using mn0 d(2) by simp
    moreover have "real_of_int d < 2 ^ 63" using d(3)
      by (metis of_int_less_iff of_int_numeral of_int_power)
    ultimately show ?thesis using big b0 by simp
  qed
  have "real_of_int base * (1 - deviation * (1 + 1 / 2 ^ 51)) = real_of_int base - x"
       "real_of_int base * (1 + deviation * (1 + 1 / 2 ^ 51)) = real_of_int base + x"
    by (simp_all add: x_def algebra_simps)
  with lo_hi eq d(1,2) mn0 show ?thesis by simp
qed

theorem SleepWithJitter_bounds_witness:
  "float64_rounding binary64 \<and> (0::int) \<le> 10 \<and> in64 10 \<and> (0::real) \<le> 1 / 2
   \<and> (\<exists>d. SleepWithJitter binary64 7 amd64_oob 10 (1 / 2) = Inr d
          \<and> real_of_int 10 * (1 - 1 / 2 * (1 + 1 / 2 ^ 51)) \<le> real_of_int d
          \<and> real_of_int d \<le> real_of_int 10 * (1 + 1 / 2 * (1 + 1 / 2 ^ 51)) \<and> 0 \<le> d)"
proof -
  have h: "(0::int) \<le> 10" "in64 10" "(0::real) \<le> 1 / 2"
    by (simp_all add: in64_def)
  from SleepWithJitter_bounds [OF binary64_rounding h, of 7 amd64_oob]
    binary64_rounding h
  show ?thesis by (intro conjI)
qed

text \<open>
  C6 as stated fails. A negative deviation is clamped to 0, so the base itself is slept
  although it is below \<open>b * (1 - f)\<close>; a negative base is clamped to a sleep of 0 although
  that is above \<open>b * (1 + f)\<close>; and the conversion of the base \<open>2 ^ 60 + 129\<close> rounds up
  to \<open>2 ^ 60 + 256\<close>, so with the deviation 1 a sleep of \<open>2 ^ 61 + 384\<close> is sampled, above
  \<open>b * (1 + f) = 2 ^ 61 + 258\<close>.
\<close>

theorem SleepWithJitter_bounds_counterexample:
  "(SleepWithJitter binary64 0 amd64_oob 10 (- (1 / 2)) = Inr 10
      \<and> \<not> real_of_int 10 * (1 - (- (1 / 2))) \<le> real_of_int 10)
   \<and> (SleepWithJitter binary64 0 amd64_oob (- 10) (1 / 2) = Inr 0
      \<and> \<not> real_of_int 0 \<le> real_of_int (- 10) * (1 + 1 / 2))
   \<and> (SleepWithJitter binary64 (2 ^ 61 + 384) amd64_oob (2 ^ 60 + 129) 1 = Inr (2 ^ 61 + 384)
      \<and> \<not> real_of_int (2 ^ 61 + 384) \<le> real_of_int (2 ^ 60 + 129) * (1 + 1))"
proof -
  have "SleepWithJitter binary64 0 amd64_oob 10 (- (1 / 2)) = Inr 10"
    by (simp add: SleepWithJitter_def SleepRandom_def RandomDuration_def toDuration_def
        float_trunc_def in64_def wrap64_def Let_def binary64_numeral)
  moreover have "SleepWithJitter binary64 0 amd64_oob (- 10) (1 / 2) = Inr 0"
    by (simp add: SleepWithJitter_def SleepRandom_def RandomDuration_def toDuration_def
        float_trunc_def in64_def wrap64_def Let_def binary64_minus binary64_numeral)
  moreover have "SleepWithJitter binary64 (2 ^ 61 + 384) amd64_oob (2 ^ 60 + 129) 1
      = Inr (2 ^ 61 + 384)"
    by (simp add: SleepWithJitter_def SleepRandom_def RandomDuration_def Int63n_def
        toDuration_def float_trunc_def in64_def wrap64_def Let_def
        binary64_big_binade [of 8] round_even_def)
  ultimately show ?thesis by simp
qed

text \<open>
  C10. \<^verbatim>\<open>RandomDuration\<close> returns \<open>min\<close> without sampling when \<open>min \<ge> max\<close>
  (\<open>RandomDuration_no_sample\<close>), and that is its only guard. For the pair of the smallest
  and the largest \<^verbatim>\<open>int64\<close> the difference \<open>max - min\<close> wraps around to \<open>-1\<close> and
  \<^verbatim>\<open>rand.Int63n\<close> panics: \<^verbatim>\<open>RandomDuration\<close> is not total. \<^verbatim>\<open>SleepWithJitter\<close> never
  passes it such a pair (\<open>SleepWithJitter_total\<close>).
\<close>

theorem RandomDuration_overflow_panics:
  "RandomDuration r (- (2 ^ 63)) (2 ^ 63 - 1) = Inl (Panic ''invalid argument to Int63n'')"
  by (simp add: RandomDuration_def Int63n_def wrap64_def Let_def)

section \<open>Properties of the retry wrapper\<close>

declare RetryWithBackoff_loop.simps [simp del]

lemma RetryWithBackoff_loop_failing:
  assumes "n = nat (m - i)" "0 \<le> i" "i \<le> m"
    and "\<forall>k. i \<le> k \<and> k < m \<longrightarrow> op (nat k) \<noteq> None"
    and "\<forall>d\<in>set (backoff_delays b maxd n). in64 (2 * d)"
  shows "RetryWithBackoff_loop op m maxd i b err acc =
           (if op (nat m) = None then None else Some (RetriesExhausted m (op (nat m))),
            acc @ backoff_delays b maxd n)"
  using assms
proof (induction n arbitrary: i b err acc)
  case 0
  then have "i = m" by simp
  then show ?case
    by (simp add: RetryWithBackoff_loop.simps [of op m maxd m] Let_def)
next
  case (Suc n)
  then have lt: "i < m" by simp
  with Suc.prems have f: "op (nat i) \<noteq> None" by simp
  have b2: "in64 (2 * b)" using Suc.prems(5) by simp
  define b' where "b' = min (2 * b) maxd"
  have step: "RetryWithBackoff_loop op m maxd i b err acc =
      RetryWithBackoff_loop op m maxd (i + 1) b' (op (nat i)) (acc @ [b])"
    using lt f b2
    by (subst RetryWithBackoff_loop.simps)
       (auto simp: Let_def wrap64_id mult.commute b'_def min_def)
  have "RetryWithBackoff_loop op m maxd (i + 1) b' (op (nat i)) (acc @ [b]) =
      (if op (nat m) = None then None else Some (RetriesExhausted m (op (nat m))),
            (acc @ [b]) @ backoff_delays b' maxd n)"
  proof (rule Suc.IH)
    show "n = nat (m - (i + 1))" using Suc.prems(1) by simp
    show "0 \<le> i + 1" using Suc.prems(2) by simp
    show "i + 1 \<le> m" using lt by simp
    show "\<forall>k. i + 1 \<le> k \<and> k < m \<longrightarrow> op (nat k) \<noteq> None" using Suc.prems(4) by simp
    show "\<forall>d\<in>set (backoff_delays b' maxd n). in64 (2 * d)"
      using Suc.prems(5) by (simp add: b'_def)
  qed
  with step show ?case by (simp add: b'_def)
qed

text \<open>
  With \<open>maxRetries = n\<close> and an operation whose first \<open>n\<close> calls fail: if call \<open>n\<close> (the
  last attempt) succeeds the wrapper returns nil, otherwise it returns the error carrying
  the retry count \<open>n\<close> and the error of the last call. In both cases it has slept \<open>n\<close>
  times, for the delays of \<open>backoff_delays\<close>, as long as no delay overflows when it is
  doubled on \<^verbatim>\<open>int64\<close>.
\<close>

lemma RetryWithBackoff_sleeps:
  assumes "\<forall>d\<in>set (backoff_delays initialDelay maxDelay n). in64 (2 * d)"
    and "\<forall>k<n. op k \<noteq> None"
  shows "RetryWithBackoff op (int n) initialDelay maxDelay =
           (if op n = None then None else Some (RetriesExhausted (int n) (op n)),
            backoff_delays initialDelay maxDelay n)"
proof -
  have "\<forall>k. 0 \<le> k \<and> k < int n \<longrightarrow> op (nat k) \<noteq> None"
    using assms(2) by auto
  then have "RetryWithBackoff op (int n) initialDelay maxDelay =
      (if op (nat (int n)) = None then None
       else Some (RetriesExhausted (int n) (op (nat (int n)))),
       [] @ backoff_delays initialDelay maxDelay n)"
    unfolding RetryWithBackoff_def
    by (intro RetryWithBackoff_loop_failing) (use assms(1) in simp_all)
  then show ?thesis by simp
qed

text \<open>
  From an initial delay that is positive and at most the maximal delay, these are the
  delays of the specification.
\<close>

lemma backoff_delays_capped:
  assumes "0 \<le> d" "d \<le> maxDelay"
  shows "backoff_delays d maxDelay n = capped_delays d maxDelay n"
  using assms
proof (induction n arbitrary: d)
  case 0
  then show ?case by (simp add: capped_delays_def)
next
  case (Suc n)
  have m: "0 \<le> min (2 * d) maxDelay" "min (2 * d) maxDelay \<le> maxDelay"
    using Suc.prems by simp_all
  have "min (min (2 * d) maxDelay * 2 ^ i) maxDelay = min (d * 2 ^ Suc i) maxDelay" for i
  proof (cases "2 * d \<le> maxDelay")
    case True
    then show ?thesis by (simp add: min_def mult.assoc)
  next
    case False
    then have a: "min (2 * d) maxDelay = maxDelay" by simp
    have p: "(1::int) \<le> 2 ^ i" by simp
    have "maxDelay * 1 \<le> maxDelay * 2 ^ i"
      using Suc.prems p by (intro mult_left_mono) simp_all
    moreover have "2 * d * 1 \<le> 2 * d * 2 ^ i"
      using Suc.prems p by (intro mult_left_mono) simp_all
    ultimately show ?thesis using False by (simp add: a)
  qed
  then have "map (\<lambda>i. min (min (2 * d) maxDelay * 2 ^ i) maxDelay) [0..<n]
      = map (\<lambda>i. min (d * 2 ^ Suc i) maxDelay) [0..<n]"
    by simp
  also have "\<dots> = map (\<lambda>i. min (d * 2 ^ i) maxDelay) (map Suc [0..<n])"
    by (simp add: comp_def)
  finally have tl: "capped_delays (min (2 * d) maxDelay) maxDelay n
      = map (\<lambda>i. min (d * 2 ^ i) maxDelay) (map Suc [0..<n])"
    by (simp add: capped_delays_def)
  have "[0..<Suc n] = 0 # map Suc [0..<n]"
    by (simp add: upt_conv_Cons map_Suc_upt del: upt_Suc)
  then have "capped_delays d maxDelay (Suc n)
      = min d maxDelay # map (\<lambda>i. min (d * 2 ^ i) maxDelay) (map Suc [0..<n])"
    unfolding capped_delays_def by (simp del: upt_Suc)
  with tl Suc.IH [OF m] Suc.prems show ?case by simp
qed

lemma RetryWithBackoff_example:
  "RetryWithBackoff (fails_then_ok 3) 3 (2 * Second) (10 * Second) =
       (None, [2 * Second, 4 * Second, 8 * Second])
   \<and> RetryWithBackoff (fails_then_ok 4) 3 (2 * Second) (10 * Second) =
       (Some (RetriesExhausted 3 (Some (Error ''navigation failed''))),
        [2 * Second, 4 * Second, 8 * Second])"
proof -
  have d: "backoff_delays (2 * Second) (10 * Second) 3 = [2 * Second, 4 * Second, 8 * Second]"
    by (simp add: numeral_3_eq_3 Second_def)
  have h1: "\<forall>d\<in>set (backoff_delays (2 * Second) (10 * Second) 3). in64 (2 * d)"
    unfolding d by (simp add: Second_def in64_def)
  have h2: "\<forall>k<3. fails_then_ok 3 k \<noteq> None" "\<forall>k<3. fails_then_ok 4 k \<noteq> None"
    by (simp_all add: fails_then_ok_def)
  have e: "fails_then_ok 3 3 = None" "fails_then_ok 4 3 = Some (Error ''navigation failed'')"
    by (simp_all add: fails_then_ok_def)
  show ?thesis
    using RetryWithBackoff_sleeps [OF h1 h2(1)] RetryWithBackoff_sleeps [OF h1 h2(2)]
    by (simp add: e d)
qed

text \<open>
  A delay of \<open>2 ^ 62\<close> nanoseconds overflows when it is doubled: the next sleep is for a
  negative duration, whatever the maximal delay.
\<close>

lemma RetryWithBackoff_doubling_overflows:
  "RetryWithBackoff (fails_then_ok 2) 2 (2 ^ 62) (2 ^ 63 - 1) = (None, [2 ^ 62, - (2 ^ 63)])"
proof -
  have e: "fails_then_ok 2 0 \<noteq> None" "fails_then_ok 2 1 \<noteq> None"
      "fails_then_ok 2 2 = None" "fails_then_ok 2 (Suc 0) \<noteq> None"
    by (simp_all add: fails_then_ok_def)
  show ?thesis
    by (simp add: RetryWithBackoff_def RetryWithBackoff_loop.simps [of "fails_then_ok 2"]
        Let_def e wrap64_def nat_numeral)
qed


section \<open>Properties of the scroll synthesizer\<close>

lemma rnd0_contract: "Float64_contract rnd0"
  by (simp add: Float64_contract_def rnd0_def)

lemma rnd_half_contract: "Float64_contract rnd_half"
  by (simp add: Float64_contract_def rnd_half_def)


declare steps_loop.simps [simp del]
















subsection \<open>The loop in \<^verbatim>\<open>float64\<close> arithmetic\<close>

text \<open>
  With 2 ^ 63 remaining, a chunk (between 100 and 300) is less than half the distance to the
  next \<^verbatim>\<open>float64\<close> below: \<^verbatim>\<open>remaining -= chunk\<close> leaves \<open>remaining\<close> as it is.
\<close>

lemma next_chunk_binary64:
  assumes facts: "binary64_facts rd" and rnd: "Float64_contract rnd"
    and rem: "remaining st = 2 ^ 63"
  shows "100 \<le> next_chunk rd rnd (2 ^ 63) st \<and> next_chunk rd rnd (2 ^ 63) st \<le> 300"
proof -
  have mono: "\<And>x y. x \<le> y \<Longrightarrow> rd x \<le> rd y"
    using facts by (simp add: binary64_facts_def)
  have fx: "rd 0 = 0" "rd 1 = 1" "rd 100 = 100" "rd 200 = 200" "rd 300 = 300"
    using facts by (simp_all add: binary64_facts_def)
  define r where "r = rnd (draws st)"
  have r: "0 \<le> r" "r < 1" using rnd by (auto simp: Float64_contract_def r_def)
  define a where "a = rd (r * 200)"
  have a: "0 \<le> a" "a \<le> 200"
    using mono [of 0 "r * 200"] mono [of "r * 200" 200] r fx by (simp_all add: a_def)
  define b where "b = rd (100 + a)"
  have b: "100 \<le> b" "b \<le> 300"
    using mono [of 100 "100 + a"] mono [of "100 + a" 300] a fx by (simp_all add: b_def)
  define c where "c = rd (b * 1)"
  have c: "100 \<le> c" "c \<le> 300"
    using mono [of 100 b] mono [of b 300] b fx by (simp_all add: c_def)
  have big: "(300::real) < 2 ^ 63" by simp
  have "\<not> \<bar>c\<bar> > \<bar>(2::real) ^ 63\<bar>" using c big by simp
  then have "next_chunk rd rnd (2 ^ 63) st = c"
    by (simp add: next_chunk_def Let_def rem fx c_def b_def a_def r_def)
  with c show ?thesis by simp
qed

lemma scroll_chunk_binary64:
  assumes facts: "binary64_facts rd" and rnd: "Float64_contract rnd"
    and rem: "remaining st = 2 ^ 63"
  shows "remaining (scroll_chunk rd rnd (2 ^ 63) st) = 2 ^ 63"
proof -
  define chunk where "chunk = next_chunk rd rnd (2 ^ 63) st"
  have c: "100 \<le> chunk" "chunk \<le> 300"
    using next_chunk_binary64 [OF assms] by (simp_all add: chunk_def)
  have absorb: "\<And>x. 2 ^ 63 - 512 < x \<Longrightarrow> x \<le> 2 ^ 63 \<Longrightarrow> rd x = 2 ^ 63"
    using facts by (simp add: binary64_facts_def)
  have "remaining (scroll_chunk rd rnd (2 ^ 63) st) = rd (remaining st - chunk)"
    by (simp add: scroll_chunk_def Let_def chunk_def split: prod.split)
  also have "\<dots> = rd (2 ^ 63 - chunk)" by (simp add: rem)
  also have "\<dots> = 2 ^ 63" using c by (intro absorb) simp_all
  finally show ?thesis .
qed

lemma HumanScroll_loop_binary64:
  assumes facts: "binary64_facts rd" and rnd: "Float64_contract rnd"
    and rem: "remaining st = 2 ^ 63"
  shows "HumanScroll_loop rd rnd (2 ^ 63) st = None"
proof (cases "HumanScroll_loop rd rnd (2 ^ 63) st")
  case None
  then show ?thesis .
next
  case (Some y)
  define P :: "(real \<Rightarrow> real) \<Rightarrow> (nat \<Rightarrow> real) \<Rightarrow> real \<Rightarrow> scroll_state \<Rightarrow> scroll_state \<Rightarrow> bool"
    where "P = (\<lambda>rd' rnd' d s y. rd' = rd \<and> rnd' = rnd \<and> d = 2 ^ 63 \<and> remaining s = 2 ^ 63 \<longrightarrow> False)"
  have step: "P rd' rnd' d s z"
    if IH: "\<And>rnd'' d' s' b z'. loop rnd'' d' s' b = Some z' \<Longrightarrow> P rnd'' d' s' b z'"
      and body: "(if 0 < \<bar>remaining s\<bar> then loop rd' rnd' d (scroll_chunk rd' rnd' d s) else Some s) = Some z"
    for loop rd' rnd' d s z
    unfolding P_def
  proof (intro impI, elim conjE)
    assume e: "rd' = rd" "rnd' = rnd" "d = 2 ^ 63" and r: "remaining s = 2 ^ 63"
    from r have "0 < \<bar>remaining s\<bar>" by simp
    with body have "loop rd' rnd' d (scroll_chunk rd' rnd' d s) = Some z" by simp
    from IH [OF this] have "P rd' rnd' d (scroll_chunk rd' rnd' d s) z" .
    with e scroll_chunk_binary64 [OF facts rnd r] show False by (simp add: P_def)
  qed
  have "P rd rnd (2 ^ 63) st y"
    by (rule HumanScroll_loop.raw_induct [where P = P, OF step Some])
  with rem show ?thesis by (simp add: P_def)
qed

lemma round_near_2_63_facts: "binary64_facts round_near_2_63"
  unfolding binary64_facts_def
proof (intro conjI allI impI)
  fix x y :: real
  assume "x \<le> y"
  then show "round_near_2_63 x \<le> round_near_2_63 y"
    by (auto simp: round_near_2_63_def)
qed (simp_all add: round_near_2_63_def)

text \<open>
  C9. \<^verbatim>\<open>HumanScroll\<close> does not return for every finite \<open>deltaY\<close>: for \<open>deltaY = 2 ^ 63\<close>
  (the \<^verbatim>\<open>float64\<close> 9223372036854775808), at least 100, no iteration of the loop reduces
  \<open>remaining\<close>, whatever the random values, and the loop never ends.
\<close>

theorem HumanScroll_float64_diverges:
  assumes "binary64_facts rd" and "Float64_contract rnd"
  shows "\<bar>(2::real) ^ 63\<bar> \<ge> 100 \<and> HumanScroll rd rnd (2 ^ 63) = None"
proof -
  have "remaining (HumanScroll_init (2 ^ 63)) = 2 ^ 63" by (simp add: HumanScroll_init_def)
  from HumanScroll_loop_binary64 [OF assms this] show ?thesis
    by (simp add: HumanScroll_def)
qed

theorem HumanScroll_float64_diverges_witness:
  "binary64_facts round_near_2_63 \<and> Float64_contract rnd0
   \<and> HumanScroll round_near_2_63 rnd0 (2 ^ 63) = None"
proof -
  from HumanScroll_float64_diverges [OF round_near_2_63_facts rnd0_contract]
       round_near_2_63_facts rnd0_contract
  show ?thesis by (intro conjI) simp_all
qed

text \<open>
  The rounding \<open>binary64\<close> has the facts of \<open>binary64_facts\<close> too, so the loop does not end
  under it either.
\<close>

lemma binary64_absorbs:
  assumes "2 ^ 63 - 512 < x" "x \<le> 2 ^ 63"
  shows "binary64 x = 2 ^ 63"
proof (cases "x = 2 ^ 63")
  case True
  have "binary64 (2 ^ 63) = real_of_int (round_even (2 ^ 63 / 2 ^ 11)) * 2 ^ 11"
    by (rule binary64_big_binade) simp_all
  also have "(2 :: real) ^ 63 / 2 ^ 11 = real_of_int (2 ^ 52)" by simp
  finally show ?thesis by (simp add: True)
next
  case False
  with assms have lt: "x < 2 ^ 63" by simp
  have b: "binary64 x = real_of_int (round_even (x / 2 ^ 10)) * 2 ^ 10"
    using assms(1) lt by (intro binary64_big_binade) simp_all
  define q where "q = x / 2 ^ 10"
  have q: "2 ^ 53 - 1 / 2 < q" "q < 2 ^ 53" using assms(1) lt by (simp_all add: q_def)
  have f: "\<lfloor>q\<rfloor> = 2 ^ 53 - 1" using q by (intro floor_unique) simp_all
  have "round_even q = 2 ^ 53"
    using q by (simp add: round_even_def f Let_def)
  with b show ?thesis unfolding q_def by simp
qed

lemma binary64_binary64_facts: "binary64_facts binary64"
  unfolding binary64_facts_def
  using binary64_mono binary64_absorbs by (simp add: binary64_numeral)

lemma HumanScroll_binary64_diverges:
  assumes "Float64_contract rnd"
  shows "HumanScroll binary64 rnd (2 ^ 63) = None"
proof -
  have "remaining (HumanScroll_init (2 ^ 63)) = 2 ^ 63" by (simp add: HumanScroll_init_def)
  from HumanScroll_loop_binary64 [OF binary64_binary64_facts assms this] show ?thesis
    by (simp add: HumanScroll_def)
qed

section \<open>Properties of the keystroke synthesizer\<close>

lemma HumanType_loop_no_typo:
  "\<forall>i < length chars. \<not> rnd (k + i) < typoRate \<Longrightarrow>
   HumanType_loop rnd pick k j chars = Some (map (\<lambda>c. InsertText [c]) chars)"
proof (induction chars arbitrary: k)
  case Nil
  show ?case by simp
next
  case (Cons c cs)
  from Cons.prems have "\<not> rnd k < typoRate" by auto
  moreover have "\<forall>i < length cs. \<not> rnd (k + 1 + i) < typoRate"
    using Cons.prems by auto
  ultimately show ?case using Cons.IH [of "k + 1"] by simp
qed

lemma inserts_map: "inserts (map (\<lambda>c. InsertText [c]) chars) = map (\<lambda>c. [c]) chars"
  by (induction chars) simp_all

lemma concat_singletons: "concat (map (\<lambda>c. [c]) chars) = chars"
  by (induction chars) simp_all

text \<open>
  C8. When the element takes the focus and no character draws a value below the typo
  rate (the typo branch is never taken), \<^verbatim>\<open>HumanType\<close> returns nil after exactly one
  insert-text event per character, in the order of the text, and the inserted strings
  concatenated are the text.
\<close>

theorem HumanType_no_typo:
  assumes "\<forall>i < length text. \<not> rnd i < typoRate"
  shows "\<exists>evs. HumanType None rnd pick text = Some (None, evs)
           \<and> evs = map (\<lambda>c. InsertText [c]) text
           \<and> length evs = length text
           \<and> inserts evs = map (\<lambda>c. [c]) text
           \<and> concat (inserts evs) = text"
  using HumanType_loop_no_typo [of "text" rnd 0 pick 0] assms
  by (simp add: HumanType_def inserts_map concat_singletons)

theorem HumanType_no_typo_witness:
  "list_all (\<lambda>i. \<not> rnd_half i < typoRate) [0..<length ''hi you'']
   \<and> HumanType None rnd_half pick_seq ''hi you'' =
       Some (None, [InsertText ''h'', InsertText ''i'', InsertText '' '', InsertText ''y'',
                    InsertText ''o'', InsertText ''u''])
   \<and> concat (inserts [InsertText ''h'', InsertText ''i'', InsertText '' '', InsertText ''y'',
                    InsertText ''o'', InsertText ''u'']) = ''hi you''"
proof -
  have h: "\<forall>i < length ''hi you''. \<not> rnd_half i < typoRate"
    by (simp add: rnd_half_def typoRate_def)
  then have l: "list_all (\<lambda>i. \<not> rnd_half i < typoRate) [0..<length ''hi you'']"
    by (simp add: list_all_iff)
  from HumanType_no_typo [OF h, of pick_seq] have
    "HumanType None rnd_half pick_seq ''hi you'' =
       Some (None, [InsertText ''h'', InsertText ''i'', InsertText '' '', InsertText ''y'',
                    InsertText ''o'', InsertText ''u''])"
    by simp
  with l show ?thesis by simp
qed

section \<open>Properties of the search\<close>

lemma add_new_distinct: "distinct acc \<Longrightarrow> distinct (add_new us acc)"
  by (induction us arbitrary: acc) auto

lemma add_new_set: "set (add_new us acc) = set us \<union> set acc"
  by (induction us arbitrary: acc) auto

lemma add_new_fresh:
  "distinct us \<Longrightarrow> set us \<inter> set acc = {} \<Longrightarrow> add_new us acc = acc @ us"
  by (induction us arbitrary: acc) auto

lemma profile_links_simps:
  "profile_links [] = []"
  "profile_links (None # elements) = profile_links elements"
  "profile_links (Some val # elements) =
     (if is_profile_link val then val # profile_links elements else profile_links elements)"
  by (simp_all add: profile_links_def)

lemma scan_anchors_add_new:
  "(\<forall>u. uniqueURLs u \<longleftrightarrow> u \<in> set results) \<Longrightarrow>
   snd (scan_anchors elements uniqueURLs results) =
     add_new (map cleanURL (profile_links elements)) results"
proof (induction elements arbitrary: uniqueURLs results)
  case Nil
  show ?case by (simp add: profile_links_simps)
next
  case (Cons href elements)
  show ?case
  proof (cases href)
    case None
    with Cons show ?thesis by (simp add: profile_links_simps)
  next
    case (Some val)
    show ?thesis
    proof (cases "is_profile_link val")
      case False
      with Some Cons show ?thesis by (simp add: profile_links_simps)
    next
      case True
      show ?thesis
      proof (cases "uniqueURLs (cleanURL val)")
        case seen: True
        then have "cleanURL val \<in> set results" using Cons.prems by simp
        with seen True Some Cons.IH [OF Cons.prems] show ?thesis
          by (simp add: profile_links_simps Let_def)
      next
        case new: False
        then have notin: "cleanURL val \<notin> set results" using Cons.prems by simp
        have step: "scan_anchors (href # elements) uniqueURLs results =
            scan_anchors elements (uniqueURLs(cleanURL val := True)) (results @ [cleanURL val])"
          using new True Some by (simp add: Let_def)
        have inv: "\<forall>u. (uniqueURLs(cleanURL val := True)) u \<longleftrightarrow> u \<in> set (results @ [cleanURL val])"
          using Cons.prems by auto
        have eq: "add_new (map cleanURL (profile_links (href # elements))) results =
            add_new (map cleanURL (profile_links elements)) (results @ [cleanURL val])"
          using True Some notin by (simp add: profile_links_simps)
        have "snd (scan_anchors (href # elements) uniqueURLs results) =
            snd (scan_anchors elements (uniqueURLs(cleanURL val := True)) (results @ [cleanURL val]))"
          by (simp only: step)
        also have "\<dots> = add_new (map cleanURL (profile_links elements)) (results @ [cleanURL val])"
          by (rule Cons.IH [OF inv])
        finally show ?thesis by (simp only: eq)
      qed
    qed
  qed
qed

lemma pages_loop_single:
  "pages_loop pages 1 1 uniqueURLs results =
     (case anchors (pages 1) of
        None \<Rightarrow> results
      | Some elements \<Rightarrow> snd (scan_anchors elements uniqueURLs results))"
  by (simp add: split_beta split: option.splits)

lemma Split_first_no_sep: "sep \<notin> set (Split_first s sep)"
  unfolding Split_first_def by (induction s) auto

lemma cleanURL_shape: "CHR ''?'' \<notin> set (cleanURL val) \<and> HasPrefix (cleanURL val) ''http''"
  using Split_first_no_sep [of "CHR ''?''" val]
  by (auto simp: cleanURL_def Let_def HasPrefix_def)

text \<open>
  C7. With \<open>maxPages = 1\<close>, a navigation that succeeds and a page whose anchors are
  \<open>elements\<close>, \<^verbatim>\<open>SearchPeople\<close> returns without error the cleaned profile links of the
  page: the links that contain \<^verbatim>\<open>/in/\<close> and not \<^verbatim>\<open>/mini-profile/\<close>, each cut at its query
  string and prefixed with the origin unless it starts with \<^verbatim>\<open>http\<close>. The result never
  holds a URL twice; when the cleaned links of the page are distinct (three distinct
  profiles, say) the result is exactly these, in the order of the page.
\<close>

theorem SearchPeople_single_page:
  assumes "NavigateTo nav (searchURL criteria) = None"
    and "anchors (pages 1) = Some elements"
  shows "\<exists>results. SearchPeople nav pages criteria 1 = (results, None)
           \<and> distinct results
           \<and> set results = cleanURL ` set (profile_links elements)
           \<and> (distinct (map cleanURL (profile_links elements)) \<longrightarrow>
                results = map cleanURL (profile_links elements))
           \<and> (\<forall>url\<in>set results. CHR ''?'' \<notin> set url \<and> HasPrefix url ''http'')
           \<and> (\<forall>val\<in>set (profile_links elements).
                 Contains val ''/in/'' \<and> \<not> Contains val ''/mini-profile/'')"
proof -
  define results where "results = add_new (map cleanURL (profile_links elements)) []"
  have "snd (scan_anchors elements (\<lambda>url. False) []) = results"
    unfolding results_def by (rule scan_anchors_add_new) simp
  then have r: "SearchPeople nav pages criteria 1 = (results, None)"
    using assms by (simp add: SearchPeople_def pages_loop_single del: pages_loop.simps)
  have d: "distinct results" unfolding results_def by (rule add_new_distinct) simp
  have s: "set results = cleanURL ` set (profile_links elements)"
    by (simp add: results_def add_new_set)
  have e: "distinct (map cleanURL (profile_links elements)) \<longrightarrow>
       results = map cleanURL (profile_links elements)"
    by (simp add: results_def add_new_fresh)
  have sh: "\<forall>url\<in>set results. CHR ''?'' \<notin> set url \<and> HasPrefix url ''http''"
    unfolding s using cleanURL_shape by blast
  have p: "\<forall>val\<in>set (profile_links elements).
                 Contains val ''/in/'' \<and> \<not> Contains val ''/mini-profile/''"
    by (simp add: profile_links_def is_profile_link_def)
  from r d s e sh p show ?thesis by blast
qed

lemma example_nav: "NavigateTo nav_ok (searchURL example_criteria) = None"
  by (simp add: NavigateTo_def RetryWithBackoff_def RetryWithBackoff_loop.simps nav_ok_def)

lemma example_links:
  "profile_links (the (anchors (example_page 1))) =
     [''/in/alice?miniProfileUrn=1'', ''https://www.linkedin.com/in/bob'', ''/in/carol'']"
  by (simp add: example_page_def profile_links_def is_profile_link_def)

lemma example_clean:
  "map cleanURL [''/in/alice?miniProfileUrn=1'', ''https://www.linkedin.com/in/bob'', ''/in/carol'']
   = [''https://www.linkedin.com/in/alice'', ''https://www.linkedin.com/in/bob'',
      ''https://www.linkedin.com/in/carol'']"
  by (simp add: cleanURL_def Split_first_def HasPrefix_def Let_def)

theorem SearchPeople_single_page_witness:
  "NavigateTo nav_ok (searchURL example_criteria) = None
   \<and> anchors (example_page 1) = Some
        [Some ''/in/alice?miniProfileUrn=1'', Some ''/mini-profile/alice'',
         Some ''https://www.linkedin.com/in/bob'', Some ''/in/carol'']
   \<and> distinct (map cleanURL (profile_links
        [Some ''/in/alice?miniProfileUrn=1'', Some ''/mini-profile/alice'',
         Some ''https://www.linkedin.com/in/bob'', Some ''/in/carol'']))
   \<and> SearchPeople nav_ok example_page example_criteria 1 =
        ([''https://www.linkedin.com/in/alice'', ''https://www.linkedin.com/in/bob'',
          ''https://www.linkedin.com/in/carol''], None)"
proof -
  define elements where "elements =
        [Some ''/in/alice?miniProfileUrn=1'', Some ''/mini-profile/alice'',
         Some ''https://www.linkedin.com/in/bob'', Some ''/in/carol'']"
  have a: "anchors (example_page 1) = Some elements"
    by (simp add: example_page_def elements_def)
  have l: "map cleanURL (profile_links elements) =
      [''https://www.linkedin.com/in/alice'', ''https://www.linkedin.com/in/bob'',
       ''https://www.linkedin.com/in/carol'']"
    using example_links example_clean a by simp
  then have d: "distinct (map cleanURL (profile_links elements))" by simp
  from SearchPeople_single_page
         [of nav_ok example_criteria example_page elements, OF example_nav a] d l
  have "SearchPeople nav_ok example_page example_criteria 1 =
        ([''https://www.linkedin.com/in/alice'', ''https://www.linkedin.com/in/bob'',
          ''https://www.linkedin.com/in/carol''], None)"
    by auto
  with example_nav a d show ?thesis unfolding elements_def by simp
qed

section \<open>Properties of the action layer\<close>

lemma fst_after [simp]: "fst (after tr rest) = fst rest"
  by (simp add: after_def)

lemma snd_after [simp]: "snd (after tr rest) = tr @ snd rest"
  by (simp add: after_def)

lemma after_pair: "after tr (r, tr') = (r, tr @ tr')"
  by (simp add: after_def)

section \<open>Properties of the login\<close>

text \<open>
  C2, as amended. With a user name or a password missing \<^verbatim>\<open>Login\<close> still navigates to the
  feed first and returns the error of a failed navigation, or nil when the page shows the
  logged-in indicator. Otherwise it asks for the user name input, navigates to the login
  page when that is missing, and then returns the error for the missing credentials:
  after navigations and element queries, and before it looks up a field to fill in and
  before it dispatches any input.
\<close>

theorem Login_missing_credentials:
  assumes "Username cfg = [] \<or> Password cfg = []"
  shows "Login nav pg polls cfg =
           (case NavigateTo nav feedURL of
              Some err \<Rightarrow> (Some err, [Navigate feedURL])
            | None \<Rightarrow>
                if has pg loggedInSelector
                then (None, [Navigate feedURL, Query loggedInSelector])
                else (Some (Error ''cannot login: credentials missing in config/env''),
                      [Navigate feedURL, Query loggedInSelector, Query ''#username'']
                      @ (if has pg ''#username'' then [] else [Navigate loginURL])))
         \<and> \<not> list_ex dispatches_input (snd (Login nav pg polls cfg))"
  using assms
  by (auto simp: Login_def Let_def after_pair split: option.splits)

theorem Login_missing_credentials_witness:
  "(Username no_credentials = [] \<or> Password no_credentials = [])
   \<and> Login nav_ok page_blank [] no_credentials =
        (Some (Error ''cannot login: credentials missing in config/env''),
         [Navigate feedURL, Query loggedInSelector, Query ''#username'', Navigate loginURL])
   \<and> \<not> list_ex dispatches_input (snd (Login nav_ok page_blank [] no_credentials))"
proof -
  have h: "Username no_credentials = [] \<or> Password no_credentials = []"
    by (simp add: no_credentials_def)
  have n: "NavigateTo nav_ok feedURL = None"
    by (simp add: NavigateTo_def RetryWithBackoff_def RetryWithBackoff_loop.simps nav_ok_def)
  from Login_missing_credentials [OF h, of nav_ok page_blank "[]"] h n
  show ?thesis by (simp add: page_blank_def)
qed

text \<open>
  C2 as stated fails: without credentials, on a page without the logged-in indicator,
  \<^verbatim>\<open>Login\<close> has navigated twice and queried two elements when it returns.
\<close>

theorem Login_navigates_first_counterexample:
  "Username no_credentials = [] \<and> Password no_credentials = []
   \<and> snd (Login nav_ok page_blank [] no_credentials) =
        [Navigate ''https://www.linkedin.com/feed/'', Query ''.global-nav__content'',
         Query ''#username'', Navigate ''https://www.linkedin.com/login'']"
  by (simp add: Login_def NavigateTo_def RetryWithBackoff_def RetryWithBackoff_loop.simps
      nav_ok_def page_blank_def no_credentials_def feedURL_def loginURL_def
      loggedInSelector_def Let_def)

section \<open>Properties of the connect workflow\<close>

lemma tryFallbacks_state:
  "snd (fst (tryFallbacks pg s url msg)) = s \<or> snd (fst (tryFallbacks pg s url msg)) = count_sent s"
  by (simp add: tryFallbacks_def Let_def split: prod.splits option.splits)

lemma click_send_state:
  "snd (fst (click_send pg s)) = s \<or> snd (fst (click_send pg s)) = count_sent s"
  by (simp add: click_send_def Let_def split: prod.splits option.splits)

lemma after_connect_click_state:
  "snd (fst (after_connect_click pg s messageTemplate)) = s
   \<or> snd (fst (after_connect_click pg s messageTemplate)) = count_sent s"
  using click_send_state [of pg s]
  by (auto simp: after_connect_click_def Let_def split: prod.splits option.splits)

lemma SendConnectionRequest_state:
  "snd (fst (SendConnectionRequest nav pg s profileURL messageTemplate)) = s
   \<or> sentCount s < DailyLimit s
     \<and> snd (fst (SendConnectionRequest nav pg s profileURL messageTemplate)) = count_sent s"
proof (cases "sentCount s \<ge> DailyLimit s")
  case True
  then show ?thesis by (simp add: SendConnectionRequest_def)
next
  case False
  then have lt: "sentCount s < DailyLimit s" by simp
  have "snd (fst (SendConnectionRequest nav pg s profileURL messageTemplate)) = s
      \<or> snd (fst (SendConnectionRequest nav pg s profileURL messageTemplate)) = count_sent s"
    using tryFallbacks_state [of pg s profileURL messageTemplate]
      after_connect_click_state [of pg s messageTemplate] False
    by (auto simp: SendConnectionRequest_def Let_def split: prod.splits option.splits)
  with lt show ?thesis by blast
qed

text \<open>
  C3. With \<open>sentCount = DailyLimit\<close> the call returns the error of the daily limit at
  once: the trace of browser interactions is empty and the service is unchanged.
\<close>

theorem SendConnectionRequest_limit_reached:
  assumes "sentCount s = DailyLimit s"
  shows "SendConnectionRequest nav pg s profileURL messageTemplate =
           ((Some (Errorf ''daily connection limit reached (%d)'' [I (DailyLimit s)]), s), [])"
  using assms by (simp add: SendConnectionRequest_def)

theorem SendConnectionRequest_limit_reached_witness:
  "sentCount \<lparr>DailyLimit = 20, sentCount = 20\<rparr> = DailyLimit \<lparr>DailyLimit = 20, sentCount = 20\<rparr>
   \<and> SendConnectionRequest nav_ok follow_page \<lparr>DailyLimit = 20, sentCount = 20\<rparr>
        profileURL_example ''Hi {{name}}'' =
       ((Some (Errorf ''daily connection limit reached (%d)'' [I 20]),
         \<lparr>DailyLimit = 20, sentCount = 20\<rparr>), [])"
proof -
  have h: "sentCount \<lparr>DailyLimit = 20, sentCount = 20\<rparr> = DailyLimit \<lparr>DailyLimit = 20, sentCount = 20\<rparr>"
    by simp
  from SendConnectionRequest_limit_reached [OF h, of nav_ok follow_page profileURL_example
      "''Hi {{name}}''"] h
  show ?thesis by simp
qed

text \<open>
  C4. A call of \<^verbatim>\<open>SendConnectionRequest\<close> on a service with \<open>sentCount \<le> DailyLimit\<close> leaves
  the limit as it is and \<open>sentCount \<le> DailyLimit\<close>; it leaves \<open>sentCount\<close> as it is or adds
  one to it, once, and only from \<open>sentCount < DailyLimit\<close>. This holds on every path, the
  fallbacks Follow and Message included, and whatever the page answers. Both fields are
  machine integers.
\<close>

theorem SendConnectionRequest_count_invariant:
  assumes "in64 (DailyLimit s)" and "in64 (sentCount s)" and "sentCount s \<le> DailyLimit s"
    and "SendConnectionRequest nav pg s profileURL messageTemplate = ((err, s'), tr)"
  shows "DailyLimit s' = DailyLimit s \<and> sentCount s' \<le> DailyLimit s'
       \<and> (sentCount s' = sentCount s
          \<or> sentCount s < DailyLimit s \<and> sentCount s' = sentCount s + 1)"
proof -
  from SendConnectionRequest_state [of nav pg s profileURL messageTemplate] assms(4)
  consider (same) "s' = s" | (sent) "sentCount s < DailyLimit s" "s' = count_sent s"
    by auto
  then show ?thesis
  proof cases
    case same
    with assms(3) show ?thesis by simp
  next
    case sent
    from sent(1) assms(1,2) have "in64 (sentCount s + 1)" by (simp add: in64_def)
    then have "sentCount s' = sentCount s + 1" "DailyLimit s' = DailyLimit s"
      using sent(2) by (simp_all add: count_sent_def wrap64_id)
    with sent(1) show ?thesis by simp
  qed
qed

lemma follow_example:
  "SendConnectionRequest nav_ok follow_page \<lparr>DailyLimit = 20, sentCount = 19\<rparr>
     profileURL_example ''Hi {{name}}'' =
   ((None, \<lparr>DailyLimit = 20, sentCount = 20\<rparr>),
    [Navigate profileURL_example, Query ''main'', Scroll 300, Query pendingXPath]
    @ map Query directConnectSelectors @ [Query moreXPath, Query moreCSS]
    @ [Query (hd followSelectors), Observe (hd followSelectors),
       Move (hd followSelectors), Click (hd followSelectors)])"
  by (simp add: SendConnectionRequest_def NavigateTo_def RetryWithBackoff_def
      RetryWithBackoff_loop.simps nav_ok_def follow_page_def page_blank_def
      directConnectSelectors_def find_in_more_menu_def moreXPath_def moreCSS_def
      tryFallbacks_def followSelectors_def after_def count_sent_def wrap64_def Let_def)

theorem SendConnectionRequest_count_invariant_witness:
  "in64 (DailyLimit \<lparr>DailyLimit = 20, sentCount = 19\<rparr>)
   \<and> in64 (sentCount \<lparr>DailyLimit = 20, sentCount = 19\<rparr>)
   \<and> sentCount \<lparr>DailyLimit = 20, sentCount = 19\<rparr> \<le> DailyLimit \<lparr>DailyLimit = 20, sentCount = 19\<rparr>
   \<and> fst (SendConnectionRequest nav_ok follow_page \<lparr>DailyLimit = 20, sentCount = 19\<rparr>
          profileURL_example ''Hi {{name}}'') = (None, \<lparr>DailyLimit = 20, sentCount = 20\<rparr>)
   \<and> DailyLimit \<lparr>DailyLimit = 20, sentCount = 20\<rparr> = 20
   \<and> sentCount \<lparr>DailyLimit = 20, sentCount = 20\<rparr> \<le> DailyLimit \<lparr>DailyLimit = 20, sentCount = 20\<rparr>
   \<and> sentCount \<lparr>DailyLimit = 20, sentCount = 20\<rparr> = 19 + 1"
proof -
  have h: "in64 (DailyLimit \<lparr>DailyLimit = 20, sentCount = 19\<rparr>)"
    "in64 (sentCount \<lparr>DailyLimit = 20, sentCount = 19\<rparr>)"
    "sentCount \<lparr>DailyLimit = 20, sentCount = 19\<rparr> \<le> DailyLimit \<lparr>DailyLimit = 20, sentCount = 19\<rparr>"
    by (simp_all add: in64_def)
  from SendConnectionRequest_count_invariant [OF h follow_example] h follow_example
  show ?thesis by simp
qed

end
